theory Spec2Isabelle
  imports Complex_Main
begin

section \<open>The two variants of the application component\<close>

text \<open>
  The repository holds the top-level component twice: \<^verbatim>\<open>src/App.tsx\<close> and
  \<^verbatim>\<open>src/unnamed/part_002\<close>.  Both keep the undo history the same way; they differ in
  how the new index is computed, in whether undo and redo clear the debounce timer, in
  the jitter threshold of the scroll handler and in the preset handler.  Every function
  that differs takes the variant as its first argument.
\<close>

datatype variant = SrcApp | Part002

section \<open>JavaScript primitives used by the handlers\<close>

text \<open>
  A JavaScript string is a sequence of code units; \<^typ>\<open>string\<close> stands for it, one
  \<^typ>\<open>char\<close> per code unit.  \<^verbatim>\<open>xs[i]\<close> is \<^verbatim>\<open>undefined\<close> out of range, which is
  \<^const>\<open>None\<close> here.
\<close>

definition js_index :: "'a list \<Rightarrow> int \<Rightarrow> 'a option" where
  "js_index xs i = (if 0 \<le> i \<and> i < int (length xs) then Some (xs ! nat i) else None)"

text \<open>\<^verbatim>\<open>Array.prototype.slice(start, end)\<close>: a negative bound counts from the end, and
  both bounds are clamped to the array.\<close>

definition rel_index :: "nat \<Rightarrow> int \<Rightarrow> nat" where
  "rel_index n k = (if k < 0 then nat (max (int n + k) 0) else min (nat k) n)"

definition slice :: "'a list \<Rightarrow> int \<Rightarrow> int \<Rightarrow> 'a list" where
  "slice xs b e =
     (let from = rel_index (length xs) b; to = rel_index (length xs) e
      in take (to - from) (drop from xs))"

text \<open>\<^verbatim>\<open>String.prototype.substring(start, end)\<close> on indices that are already natural
  numbers (the selection bounds of a text area): both are clamped to the length and
  swapped when \<open>start > end\<close>.\<close>

definition substring :: "string \<Rightarrow> nat \<Rightarrow> nat \<Rightarrow> string" where
  "substring s a b =
     (let a' = min a (length s); b' = min b (length s)
      in take (max a' b' - min a' b') (drop (min a' b') s))"

definition substring_from :: "string \<Rightarrow> nat \<Rightarrow> string" where
  "substring_from s a = substring s a (length s)"

section \<open>History Manager\<close>

text \<open>
  The state the history handlers read and write: \<^verbatim>\<open>doc.content\<close> (which becomes
  \<^verbatim>\<open>undefined\<close> when undo or redo read the history out of range), the \<^verbatim>\<open>history\<close>
  array, \<^verbatim>\<open>historyIndex\<close>, and the pending timeout held by \<^verbatim>\<open>debounceRef\<close>.  A pending
  timeout carries the time at which it is due, the content it will commit, and the
  \<^verbatim>\<open>history\<close> and \<^verbatim>\<open>historyIndex\<close> its closure captured when it was scheduled.
\<close>

record timer =
  due :: nat
  t_content :: string
  t_history :: "string list"
  t_historyIndex :: int

record app =
  content :: "string option"
  history :: "string list"
  historyIndex :: int
  debounce :: "timer option"

definition init :: "string \<Rightarrow> app" where
  "init c = \<lparr>content = Some c, history = [c], historyIndex = 0, debounce = None\<rparr>"

text \<open>
  \<^verbatim>\<open>updateHistory\<close> queues two state updaters.  Each receives the current state value
  as \<^verbatim>\<open>prev\<close> and reads the other state variable from the closure: the history updater
  reads the closure's \<^verbatim>\<open>historyIndex\<close>, the index updater the closure's \<^verbatim>\<open>history\<close>.
\<close>

definition setHistory_updater :: "int \<Rightarrow> string \<Rightarrow> string list \<Rightarrow> string list" where
  "setHistory_updater cl_historyIndex newContent prev =
     (if js_index prev cl_historyIndex = Some newContent then prev
      else let newHistory = slice prev 0 (cl_historyIndex + 1) @ [newContent]
           in if length newHistory > 100 then tl newHistory else newHistory)"

fun setHistoryIndex_updater :: "variant \<Rightarrow> string list \<Rightarrow> string \<Rightarrow> int \<Rightarrow> int" where
  "setHistoryIndex_updater SrcApp cl_history newContent prev =
     (if js_index cl_history prev = Some newContent then prev else prev + 1)"
| "setHistoryIndex_updater Part002 cl_history newContent prev =
     (if js_index cl_history prev = Some newContent then prev
      else if prev < int (length cl_history)
           then int (length (slice cl_history 0 (prev + 1)))
           else prev + 1)"

definition updateHistory :: "variant \<Rightarrow> string list \<Rightarrow> int \<Rightarrow> string \<Rightarrow> app \<Rightarrow> app" where
  "updateHistory v cl_history cl_historyIndex newContent s =
     s\<lparr>history := setHistory_updater cl_historyIndex newContent (history s),
       historyIndex := setHistoryIndex_updater v cl_history newContent (historyIndex s)\<rparr>"

text \<open>
  \<^verbatim>\<open>handleContentChange\<close> at time \<open>now\<close> (milliseconds).  The handler belongs to the
  latest render, so the closure it hands to the timer holds the current history and
  index.
\<close>

definition handleContentChange :: "variant \<Rightarrow> nat \<Rightarrow> string \<Rightarrow> bool \<Rightarrow> app \<Rightarrow> app" where
  "handleContentChange v now newContent immediate s =
     (let s1 = s\<lparr>content := Some newContent, debounce := None\<rparr>
      in if immediate then updateHistory v (history s) (historyIndex s) newContent s1
         else s1\<lparr>debounce := Some \<lparr>due = now + 700, t_content = newContent,
                                    t_history = history s, t_historyIndex = historyIndex s\<rparr>\<rparr>)"

text \<open>Only \<^verbatim>\<open>part_002\<close> clears the timeout in \<^verbatim>\<open>undo\<close> and \<^verbatim>\<open>redo\<close>.\<close>

fun clears_timer :: "variant \<Rightarrow> bool" where
  "clears_timer SrcApp = False"
| "clears_timer Part002 = True"

definition undo :: "variant \<Rightarrow> app \<Rightarrow> app" where
  "undo v s =
     (if historyIndex s > 0
      then let newIndex = historyIndex s - 1
           in s\<lparr>debounce := (if clears_timer v then None else debounce s),
                historyIndex := newIndex,
                content := js_index (history s) newIndex\<rparr>
      else s)"

definition redo :: "variant \<Rightarrow> app \<Rightarrow> app" where
  "redo v s =
     (if historyIndex s < int (length (history s)) - 1
      then let newIndex = historyIndex s + 1
           in s\<lparr>debounce := (if clears_timer v then None else debounce s),
                historyIndex := newIndex,
                content := js_index (history s) newIndex\<rparr>
      else s)"

text \<open>The event loop reaching time \<open>now\<close>: a timeout that is due runs its callback.\<close>

definition tick :: "variant \<Rightarrow> nat \<Rightarrow> app \<Rightarrow> app" where
  "tick v now s =
     (case debounce s of
        None \<Rightarrow> s
      | Some tm \<Rightarrow>
          if due tm \<le> now
          then updateHistory v (t_history tm) (t_historyIndex tm) (t_content tm)
                 (s\<lparr>debounce := None\<rparr>)
          else s)"

datatype event = Change string bool | Undo | Redo

fun handle :: "variant \<Rightarrow> nat \<Rightarrow> event \<Rightarrow> app \<Rightarrow> app" where
  "handle v now (Change c immediate) s = handleContentChange v now c immediate s"
| "handle v now Undo s = undo v s"
| "handle v now Redo s = redo v s"

fun run :: "variant \<Rightarrow> (nat \<times> event) list \<Rightarrow> app \<Rightarrow> app" where
  "run v [] s = s"
| "run v ((now, e) # es) s = run v es (handle v now e (tick v now s))"


text \<open>A commit whose closure is up to date: the handler and the state belong to the same
  render.\<close>

definition commit :: "variant \<Rightarrow> string \<Rightarrow> app \<Rightarrow> app" where
  "commit v c s = updateHistory v (history s) (historyIndex s) c s"

definition index_ok :: "app \<Rightarrow> bool" where
  "index_ok s \<longleftrightarrow> 0 \<le> historyIndex s \<and> historyIndex s < int (length (history s))"

text \<open>
  A concrete session: the document starts empty and the user inserts the one-letter
  preset \<open>a\<close> at the end of the text \<open>n\<close> times (\<^verbatim>\<open>insertTextAtCursor\<close>, an immediate
  commit each time), at times \<open>1, 2, \<dots>, n\<close>.
\<close>

definition keystrokes :: "nat \<Rightarrow> string" where
  "keystrokes k = replicate k (CHR ''a'')"

definition edits :: "nat \<Rightarrow> (nat \<times> event) list" where
  "edits n = map (\<lambda>k. (k, Change (keystrokes k) True)) [1..<Suc n]"

text \<open>A burst of debounced calls \<^verbatim>\<open>handleContentChange(c)\<close>, each at its time.\<close>

fun record_calls :: "variant \<Rightarrow> (nat \<times> string) list \<Rightarrow> app \<Rightarrow> app" where
  "record_calls v [] s = s"
| "record_calls v ((now, c) # cs) s =
     record_calls v cs (handleContentChange v now c False (tick v now s))"

text \<open>Every call of the burst comes less than 700 ms after the one before it.\<close>

fun within_window :: "(nat \<times> string) list \<Rightarrow> bool" where
  "within_window [] = True"
| "within_window [b] = True"
| "within_window ((t1, c1) # (t2, c2) # cs) =
     (t1 \<le> t2 \<and> t2 < t1 + 700 \<and> within_window ((t2, c2) # cs))"

text \<open>The state \<open>s1\<close> with the document text \<open>c\<close> and a commit of \<open>c\<close> scheduled
  at time \<open>t\<close>: what a debounced call leaves behind.\<close>

definition pending :: "app \<Rightarrow> nat \<Rightarrow> string \<Rightarrow> app" where
  "pending s1 t c = s1\<lparr>content := Some c,
      debounce := Some \<lparr>due = t + 700, t_content = c,
                       t_history = history s1, t_historyIndex = historyIndex s1\<rparr>\<rparr>"

section \<open>JavaScript numbers\<close>

text \<open>
  A JavaScript number is an IEEE 754 binary64 value: finite, \<^verbatim>\<open>NaN\<close> or an infinity.
  \<open>Fin r\<close> is the finite double whose value is the real number \<open>r\<close>.  The sign of
  zero is not modelled (a zero divisor is \<open>+0\<close>, which is what the difference of two
  equal integers gives).
\<close>

datatype jsnum = Fin real | NaN | PosInf | NegInf

subsection \<open>Rounding to binary64\<close>

text \<open>
  The binade of a positive real: how often it must be halved to fall below 2, or doubled
  to reach 1.  The halvings stop at 1024, where every result overflows; the doublings stop
  at 1022, the exponent that the subnormal numbers share with the smallest normal ones.
\<close>

fun halvings :: "nat \<Rightarrow> real \<Rightarrow> int" where
  "halvings 0 x = 0"
| "halvings (Suc n) x = (if x < 2 then 0 else 1 + halvings n (x / 2))"

fun doublings :: "nat \<Rightarrow> real \<Rightarrow> int" where
  "doublings 0 x = 0"
| "doublings (Suc n) x = (if 1 \<le> x then 0 else 1 + doublings n (2 * x))"

definition exponent :: "real \<Rightarrow> int" where
  "exponent a = (if 1 \<le> a then halvings 1024 a else - doublings 1022 a)"

definition round_half_even :: "real \<Rightarrow> int" where
  "round_half_even z =
     (let n = \<lfloor>z\<rfloor>; r = z - of_int n
      in if r < 1 / 2 then n else if 1 / 2 < r then n + 1
         else if even n then n else n + 1)"

text \<open>
  The double nearest to a real, ties to the even significand: the significand has 53 bits,
  so the spacing of the doubles around \<open>x\<close> is \<open>2\<close> to the power \<open>exponent \<bar>x\<bar> - 52\<close>; a
  result of magnitude \<open>2 ^ 1024\<close> or more is an infinity.
\<close>

definition double_of :: "real \<Rightarrow> jsnum" where
  "double_of x =
     (if x = 0 then Fin 0
      else let a = \<bar>x\<bar>;
               q = 2 powi (exponent a - 52);
               y = of_int (round_half_even (a / q)) * q
           in if 2 ^ 1024 \<le> y then (if 0 < x then PosInf else NegInf)
              else Fin (if 0 < x then y else - y))"

subsection \<open>Arithmetic\<close>

text \<open>\<^verbatim>\<open>x / y\<close>, \<^verbatim>\<open>x * y\<close> and \<^verbatim>\<open>x - y\<close> as JavaScript computes them: the exact result,
  rounded to a double.\<close>

fun dbl_div :: "jsnum \<Rightarrow> jsnum \<Rightarrow> jsnum" where
  "dbl_div (Fin a) (Fin b) =
     (if b \<noteq> 0 then double_of (a / b)
      else if a = 0 then NaN else if 0 < a then PosInf else NegInf)"
| "dbl_div NaN _ = NaN"
| "dbl_div _ NaN = NaN"
| "dbl_div (Fin a) _ = Fin 0"
| "dbl_div PosInf (Fin b) = (if 0 \<le> b then PosInf else NegInf)"
| "dbl_div NegInf (Fin b) = (if 0 \<le> b then NegInf else PosInf)"
| "dbl_div _ _ = NaN"

fun dbl_mul :: "jsnum \<Rightarrow> jsnum \<Rightarrow> jsnum" where
  "dbl_mul (Fin a) (Fin b) = double_of (a * b)"
| "dbl_mul NaN _ = NaN"
| "dbl_mul _ NaN = NaN"
| "dbl_mul PosInf (Fin b) = (if b = 0 then NaN else if 0 < b then PosInf else NegInf)"
| "dbl_mul NegInf (Fin b) = (if b = 0 then NaN else if 0 < b then NegInf else PosInf)"
| "dbl_mul (Fin a) PosInf = (if a = 0 then NaN else if 0 < a then PosInf else NegInf)"
| "dbl_mul (Fin a) NegInf = (if a = 0 then NaN else if 0 < a then NegInf else PosInf)"
| "dbl_mul PosInf PosInf = PosInf"
| "dbl_mul NegInf NegInf = PosInf"
| "dbl_mul _ _ = NegInf"

fun dbl_sub :: "jsnum \<Rightarrow> jsnum \<Rightarrow> jsnum" where
  "dbl_sub (Fin a) (Fin b) = double_of (a - b)"
| "dbl_sub NaN _ = NaN"
| "dbl_sub _ NaN = NaN"
| "dbl_sub PosInf PosInf = NaN"
| "dbl_sub NegInf NegInf = NaN"
| "dbl_sub PosInf _ = PosInf"
| "dbl_sub NegInf _ = NegInf"
| "dbl_sub (Fin a) PosInf = NegInf"
| "dbl_sub (Fin a) NegInf = PosInf"

text \<open>
  The same subtraction and multiplication without the rounding step.  The preview click
  handler uses them on line numbers and line heights, integers far below \<open>2 ^ 53\<close>, on
  which a double computes exactly.
\<close>

fun js_mul :: "jsnum \<Rightarrow> jsnum \<Rightarrow> jsnum" where
  "js_mul (Fin a) (Fin b) = Fin (a * b)"
| "js_mul NaN _ = NaN"
| "js_mul _ NaN = NaN"
| "js_mul PosInf (Fin b) = (if b = 0 then NaN else if 0 < b then PosInf else NegInf)"
| "js_mul NegInf (Fin b) = (if b = 0 then NaN else if 0 < b then NegInf else PosInf)"
| "js_mul (Fin a) PosInf = (if a = 0 then NaN else if 0 < a then PosInf else NegInf)"
| "js_mul (Fin a) NegInf = (if a = 0 then NaN else if 0 < a then NegInf else PosInf)"
| "js_mul PosInf PosInf = PosInf"
| "js_mul NegInf NegInf = PosInf"
| "js_mul _ _ = NegInf"

fun js_sub :: "jsnum \<Rightarrow> jsnum \<Rightarrow> jsnum" where
  "js_sub (Fin a) (Fin b) = Fin (a - b)"
| "js_sub NaN _ = NaN"
| "js_sub _ NaN = NaN"
| "js_sub PosInf PosInf = NaN"
| "js_sub NegInf NegInf = NaN"
| "js_sub PosInf _ = PosInf"
| "js_sub NegInf _ = NegInf"
| "js_sub (Fin a) PosInf = NegInf"
| "js_sub (Fin a) NegInf = PosInf"

fun js_abs :: "jsnum \<Rightarrow> jsnum" where
  "js_abs (Fin a) = Fin \<bar>a\<bar>"
| "js_abs NaN = NaN"
| "js_abs _ = PosInf"

text \<open>\<^verbatim>\<open>x > y\<close>; every comparison with \<^verbatim>\<open>NaN\<close> is false.\<close>

fun js_gt :: "jsnum \<Rightarrow> jsnum \<Rightarrow> bool" where
  "js_gt (Fin a) (Fin b) = (b < a)"
| "js_gt NaN _ = False"
| "js_gt _ NaN = False"
| "js_gt PosInf PosInf = False"
| "js_gt PosInf _ = True"
| "js_gt NegInf _ = False"
| "js_gt (Fin a) PosInf = False"
| "js_gt (Fin a) NegInf = True"

fun js_ge :: "jsnum \<Rightarrow> jsnum \<Rightarrow> bool" where
  "js_ge NaN _ = False"
| "js_ge _ NaN = False"
| "js_ge x y = (x = y \<or> js_gt x y)"

definition js_le :: "jsnum \<Rightarrow> jsnum \<Rightarrow> bool" where
  "js_le x y = js_ge y x"

fun finite_num :: "jsnum \<Rightarrow> bool" where
  "finite_num (Fin a) = True"
| "finite_num _ = False"

section \<open>Scroll Synchronizer\<close>

text \<open>The scroll geometry of a pane: \<^verbatim>\<open>scrollHeight\<close> and \<^verbatim>\<open>clientHeight\<close> are integers
  in the DOM, \<^verbatim>\<open>scrollTop\<close> is a double and may be fractional.\<close>

record pane =
  scrollTop :: real
  scrollHeight :: int
  clientHeight :: int

datatype source = Editor | Preview

definition percentage :: "pane \<Rightarrow> jsnum" where
  "percentage a =
     dbl_div (Fin (scrollTop a)) (dbl_sub (Fin (real_of_int (scrollHeight a)))
                                         (Fin (real_of_int (clientHeight a))))"

definition targetScroll :: "pane \<Rightarrow> pane \<Rightarrow> jsnum" where
  "targetScroll a b =
     dbl_mul (percentage a) (dbl_sub (Fin (real_of_int (scrollHeight b)))
                                    (Fin (real_of_int (clientHeight b))))"

text \<open>The assignment to the other pane's \<^verbatim>\<open>scrollTop\<close>: \<^verbatim>\<open>src/App.tsx\<close> always assigns,
  \<^verbatim>\<open>part_002\<close> only when the target is more than 10 pixels away.\<close>

fun assign_scrollTop :: "variant \<Rightarrow> pane \<Rightarrow> jsnum \<Rightarrow> jsnum option" where
  "assign_scrollTop SrcApp b target = Some target"
| "assign_scrollTop Part002 b target =
     (if js_gt (js_abs (dbl_sub (Fin (scrollTop b)) target)) (Fin 10)
      then Some target else None)"

text \<open>\<^verbatim>\<open>handleScroll\<close> returns the pane written and the value assigned to its
  \<^verbatim>\<open>scrollTop\<close>, or \<^const>\<open>None\<close> when nothing is assigned.\<close>

definition handleScroll ::
    "variant \<Rightarrow> source \<Rightarrow> pane option \<Rightarrow> pane option \<Rightarrow> (source \<times> jsnum) option" where
  "handleScroll v src editor_ref preview_ref =
     (case (editor_ref, preview_ref) of
        (Some editor, Some preview) \<Rightarrow>
          if src = Editor
          then map_option (Pair Preview) (assign_scrollTop v preview (targetScroll editor preview))
          else map_option (Pair Editor) (assign_scrollTop v editor (targetScroll preview editor))
      | _ \<Rightarrow> None)"

text \<open>
  The scroll geometry the DOM hands to the handler: \<^verbatim>\<open>scrollHeight\<close> and
  \<^verbatim>\<open>clientHeight\<close> are non-negative 32-bit integers, and the scroll offset is far below
  \<open>2 ^ 53\<close> in magnitude.
\<close>

definition dom_geometry :: "pane \<Rightarrow> bool" where
  "dom_geometry a \<longleftrightarrow>
     0 \<le> clientHeight a \<and> clientHeight a < 2 ^ 31 \<and>
     0 \<le> scrollHeight a \<and> scrollHeight a < 2 ^ 31 \<and> \<bar>scrollTop a\<bar> < 2 ^ 53"

section \<open>Strings and numbers\<close>

definition nl :: char where
  "nl = CHR 0x0A"

text \<open>\<^verbatim>\<open>s.split(sep)\<close> for a separator of one character: never empty, one more piece
  than separators.\<close>

fun split :: "char \<Rightarrow> string \<Rightarrow> string list" where
  "split sep [] = [[]]"
| "split sep (c # cs) =
     (if c = sep then [] # split sep cs
      else (c # hd (split sep cs)) # tl (split sep cs))"

text \<open>White space as \<^verbatim>\<open>trim\<close> and \<^verbatim>\<open>parseInt\<close> see it, among the code units a
  \<^typ>\<open>char\<close> can hold.\<close>

definition is_ws :: "char \<Rightarrow> bool" where
  "is_ws c \<longleftrightarrow> c \<in> {CHR 0x09, CHR 0x0A, CHR 0x0B, CHR 0x0C, CHR 0x0D, CHR 0x20, CHR 0xA0}"

definition trim :: "string \<Rightarrow> string" where
  "trim s = rev (dropWhile is_ws (rev (dropWhile is_ws s)))"

text \<open>The value of a digit in a radix, if it is one (\<^verbatim>\<open>0-9\<close>, \<^verbatim>\<open>a-z\<close>, \<^verbatim>\<open>A-Z\<close>).\<close>

definition digit_of :: "nat \<Rightarrow> char \<Rightarrow> nat option" where
  "digit_of radix c =
     (let n = (of_char c :: nat);
          d = (if 48 \<le> n \<and> n \<le> 57 then Some (n - 48)
               else if 97 \<le> n \<and> n \<le> 122 then Some (n - 87)
               else if 65 \<le> n \<and> n \<le> 90 then Some (n - 55)
               else None)
      in case d of None \<Rightarrow> None | Some k \<Rightarrow> if k < radix then Some k else None)"

definition digits_value :: "nat \<Rightarrow> string \<Rightarrow> nat" where
  "digits_value radix ds =
     foldl (\<lambda>acc c. radix * acc + (case digit_of radix c of None \<Rightarrow> 0 | Some k \<Rightarrow> k)) 0 ds"

text \<open>\<^verbatim>\<open>parseInt(s)\<close> with no radix argument: leading white space, a sign, a \<^verbatim>\<open>0x\<close>
  prefix, then the longest run of digits; \<^verbatim>\<open>NaN\<close> when there is no digit.\<close>

definition parseInt :: "string \<Rightarrow> jsnum" where
  "parseInt s =
     (let t = dropWhile is_ws s;
          negative = (take 1 t = ''-'');
          u = (if take 1 t = ''-'' \<or> take 1 t = ''+'' then drop 1 t else t);
          hex = (take 2 u = ''0x'' \<or> take 2 u = ''0X'');
          radix = (if hex then 16 else 10);
          w = (if hex then drop 2 u else u);
          ds = takeWhile (\<lambda>c. digit_of radix c \<noteq> None) w
      in if ds = [] then NaN
         else Fin (if negative then - real (digits_value radix ds)
                   else real (digits_value radix ds)))"

text \<open>\<^verbatim>\<open>n.toString()\<close> for a natural number: its decimal digits.\<close>

fun toString :: "nat \<Rightarrow> string" where
  "toString n =
     (if n < 10 then [char_of (48 + n)]
      else toString (n div 10) @ [char_of (48 + n mod 10)])"

declare toString.simps [simp del]

section \<open>Position Mapper\<close>

text \<open>
  An element of the rendered tree: an identity and its \<^verbatim>\<open>data-line\<close> attribute, absent
  or a string.  The preview is the list of its descendant elements in document order;
  a click target comes with its chain of ancestors, itself first.
\<close>

record element =
  elem_id :: nat
  data_line :: "string option"

text \<open>\<^verbatim>\<open>parseInt(el.getAttribute('data-line') || '0')\<close>\<close>

definition line_of :: "element \<Rightarrow> jsnum" where
  "line_of el =
     parseInt (case data_line el of None \<Rightarrow> ''0'' | Some a \<Rightarrow> if a = [] then ''0'' else a)"

definition has_data_line :: "element \<Rightarrow> bool" where
  "has_data_line el \<longleftrightarrow> data_line el \<noteq> None"

text \<open>The element that \<^verbatim>\<open>rehypeInjectLineNumber\<close> tags with the start line \<open>n\<close> of its
  block (the number reaches the DOM as its decimal string), and an element without the
  attribute.\<close>

definition annotated :: "nat \<Rightarrow> nat \<Rightarrow> element" where
  "annotated i n = \<lparr>elem_id = i, data_line = Some (toString n)\<rparr>"

definition plain :: "nat \<Rightarrow> element" where
  "plain i = \<lparr>elem_id = i, data_line = None\<rparr>"

definition lineNumber :: "string \<Rightarrow> nat \<Rightarrow> nat" where
  "lineNumber val cursorPosition = length (split nl (substring val 0 cursorPosition))"

text \<open>The search of \<^verbatim>\<open>handleEditorClick\<close> among the annotated elements.\<close>

definition find_target :: "element list \<Rightarrow> nat \<Rightarrow> element option" where
  "find_target elements n =
     (case List.find (\<lambda>el. js_ge (line_of el) (Fin (real n))) elements of
        Some target \<Rightarrow> Some target
      | None \<Rightarrow> List.find (\<lambda>el. js_le (line_of el) (Fin (real n))) (rev elements))"

text \<open>\<^verbatim>\<open>handleEditorClick\<close> returns the element it scrolls into view and highlights,
  or \<^const>\<open>None\<close> when it does nothing.  \<open>previewEl\<close> is the preview container, if the
  document has one.\<close>

definition handleEditorClick ::
    "bool \<Rightarrow> string \<Rightarrow> nat \<Rightarrow> element list option \<Rightarrow> element option" where
  "handleEditorClick isSyncActive val selectionStart previewEl =
     (if \<not> isSyncActive then None
      else case previewEl of
             None \<Rightarrow> None
           | Some descendants \<Rightarrow>
               find_target (filter has_data_line descendants)
                           (lineNumber val selectionStart))"

datatype FontSize = Small | Medium | Large | ExtraLarge

fun lineHeightMap :: "FontSize \<Rightarrow> nat" where
  "lineHeightMap Small = 20"
| "lineHeightMap Medium = 24"
| "lineHeightMap Large = 28"
| "lineHeightMap ExtraLarge = 32"

text \<open>\<^verbatim>\<open>handlePreviewClick\<close> returns the \<^verbatim>\<open>top\<close> it passes to \<^verbatim>\<open>scrollTo\<close> on the editor
  pane, or \<^const>\<open>None\<close> when it does not scroll.  \<open>chain\<close> is the clicked element
  followed by its ancestors, which is where \<^verbatim>\<open>closest\<close> looks.\<close>

definition handlePreviewClick ::
    "bool \<Rightarrow> element list \<Rightarrow> bool \<Rightarrow> bool \<Rightarrow> FontSize \<Rightarrow> jsnum option" where
  "handlePreviewClick isSyncActive chain textarea_ref editorContainer_ref fontSize =
     (if \<not> isSyncActive then None
      else case List.find has_data_line chain of
             None \<Rightarrow> None
           | Some target \<Rightarrow>
               if textarea_ref \<and> editorContainer_ref
               then let line = line_of target;
                        lineHeight = Fin (real (lineHeightMap fontSize));
                        scrollPos = js_mul (js_sub line (Fin 1)) lineHeight
                    in Some (js_sub scrollPos (Fin 100))
               else None)"

section \<open>Presets\<close>

record preset =
  p_id :: string
  p_name :: string
  p_content :: string

text \<open>
  \<^verbatim>\<open>handleSavePreset\<close> of \<^verbatim>\<open>part_002\<close>: the selection of the text area (if the ref is
  set), the document text, the clock reading \<^verbatim>\<open>Date.now()\<close> and the name.  It returns
  the new collection and whether it raised the alert.
\<close>

definition handleSavePreset ::
    "(nat \<times> nat) option \<Rightarrow> string \<Rightarrow> nat \<Rightarrow> string \<Rightarrow> preset list \<Rightarrow> preset list \<times> bool" where
  "handleSavePreset textarea_ref doc_content now name presets =
     (case textarea_ref of
        None \<Rightarrow> (presets, False)
      | Some (start, end) \<Rightarrow>
          let selectedText = substring doc_content start end
          in if trim selectedText = [] then (presets, True)
             else (presets @ [\<lparr>p_id = toString now, p_name = name,
                                p_content = selectedText\<rparr>], False))"


text \<open>
  The persistence layer: the effect on \<^verbatim>\<open>presets\<close> stores the collection under its key,
  and the mount effect reads it back, falling back to the defaults when the key is
  missing, unreadable or holds an empty array.  What is stored is kept as the collection
  itself (\<^verbatim>\<open>JSON.parse\<close> undoes \<^verbatim>\<open>JSON.stringify\<close> on records of strings); \<^const>\<open>None\<close> is
  a missing or unreadable item.
\<close>

definition persist_presets :: "preset list \<Rightarrow> preset list option" where
  "persist_presets presets = Some presets"

definition load_presets :: "preset list \<Rightarrow> preset list option \<Rightarrow> preset list" where
  "load_presets DEFAULT_PRESETS saved =
     (case saved of
        None \<Rightarrow> DEFAULT_PRESETS
      | Some parsed \<Rightarrow> if length parsed > 0 then parsed else DEFAULT_PRESETS)"

section \<open>Markdown insertion\<close>

datatype InsertType =
  Bold | Italic | Strike | H1 | H2 | H3 | Link | Image | Quote | Code | CodeBlock
  | Math | Ul | Ol | Check | Table | Line

text \<open>\<^verbatim>\<open>selected || placeholder\<close>: the empty string is falsy.\<close>

definition or_else :: "string \<Rightarrow> string \<Rightarrow> string" where
  "or_else selected placeholder = (if selected = [] then placeholder else selected)"

definition table_text :: string where
  "table_text = [nl] @ ''| Header 1 | Header 2 |'' @ [nl] @ ''| -------- | -------- |''
     @ [nl] @ ''| Cell 1   | Cell 2   |'' @ [nl]"

text \<open>The \<^verbatim>\<open>switch\<close> of \<^verbatim>\<open>insertMarkdown\<close>: the insertion and the cursor offset.\<close>

fun insertion :: "InsertType \<Rightarrow> string \<Rightarrow> string \<times> nat" where
  "insertion Bold selected =
     (''**'' @ or_else selected ''bold text'' @ ''**'',
      if selected \<noteq> [] then 2 + length selected + 2 else 2 + 9 + 2)"
| "insertion Italic selected =
     (''*'' @ or_else selected ''italic text'' @ ''*'',
      if selected \<noteq> [] then 1 + length selected + 1 else 1 + 11 + 1)"
| "insertion Strike selected =
     (''~~'' @ or_else selected ''strikethrough'' @ ''~~'',
      if selected \<noteq> [] then 2 + length selected + 2 else 2 + 13 + 2)"
| "insertion H1 selected =
     (''# '' @ or_else selected ''Heading 1'', 2 + length (or_else selected ''Heading 1''))"
| "insertion H2 selected =
     (''## '' @ or_else selected ''Heading 2'', 3 + length (or_else selected ''Heading 2''))"
| "insertion H3 selected =
     (''### '' @ or_else selected ''Heading 3'', 4 + length (or_else selected ''Heading 3''))"
| "insertion Link selected =
     (''['' @ or_else selected ''link text'' @ ''](url)'',
      1 + length (or_else selected ''link text'') + 1)"
| "insertion Image selected =
     (''!['' @ or_else selected ''alt text'' @ ''](image_url)'',
      2 + length (or_else selected ''alt text'') + 1)"
| "insertion Quote selected =
     ([nl] @ ''> '' @ or_else selected ''Blockquote'' @ [nl],
      3 + length (or_else selected ''Blockquote'') + 1)"
| "insertion Code selected =
     ([CHR 0x60] @ or_else selected ''code'' @ [CHR 0x60],
      1 + length (or_else selected ''code'') + 1)"
| "insertion CodeBlock selected =
     ([nl, CHR 0x60, CHR 0x60, CHR 0x60, nl] @ or_else selected ''code block''
        @ [nl, CHR 0x60, CHR 0x60, CHR 0x60, nl],
      5 + length (or_else selected ''code block'') + 4)"
| "insertion Math selected =
     ([nl] @ ''$$'' @ [nl] @ or_else selected ''E = mc^2'' @ [nl] @ ''$$'' @ [nl],
      4 + length (or_else selected ''E = mc^2'') + 4)"
| "insertion Ul selected =
     ([nl] @ ''- '' @ or_else selected ''List item'',
      3 + length (or_else selected ''List item''))"
| "insertion Ol selected =
     ([nl] @ ''1. '' @ or_else selected ''List item'',
      4 + length (or_else selected ''List item''))"
| "insertion Check selected =
     ([nl] @ ''- [ ] '' @ or_else selected ''Task item'',
      7 + length (or_else selected ''Task item''))"
| "insertion Table selected = (table_text, length table_text)"
| "insertion Line selected = ([nl] @ ''---'' @ [nl], 5)"

text \<open>The returned object; its field \<^verbatim>\<open>text\<close> is \<open>new_text\<close> here.\<close>

record inserted =
  new_text :: string
  newCursor :: nat

definition insertMarkdown :: "string \<Rightarrow> InsertType \<Rightarrow> nat \<Rightarrow> nat \<Rightarrow> inserted" where
  "insertMarkdown txt type selectionStart selectionEnd =
     (let before = substring txt 0 selectionStart;
          selected = substring txt selectionStart selectionEnd;
          after = substring_from txt selectionEnd;
          (ins, cursorOffset) = insertion type selected
      in \<lparr>new_text = before @ ins @ after, newCursor = selectionStart + cursorOffset\<rparr>)"

section \<open>Properties of the History Manager\<close>

subsection \<open>Array reads, the two updaters and the sample session\<close>

lemmas hist_defs = init_def tick_def handleContentChange_def updateHistory_def undo_def redo_def
  setHistory_updater_def js_index_def slice_def rel_index_def Let_def

lemma js_index_in: "0 \<le> i \<Longrightarrow> i < int (length xs) \<Longrightarrow> js_index xs i = Some (xs ! nat i)"
  by (simp add: js_index_def)

lemma js_index_out: "int (length xs) \<le> i \<Longrightarrow> js_index xs i = None"
  by (simp add: js_index_def)

lemma slice_0_take: "0 \<le> e \<Longrightarrow> slice xs 0 e = take (nat e) xs"
  by (simp add: slice_def rel_index_def min_def)

lemma run_append: "run v (xs @ ys) s = run v ys (run v xs s)"
  by (induction xs arbitrary: s) auto

lemma keystrokes_inj: "keystrokes m = keystrokes n \<longleftrightarrow> m = n"
  by (metis keystrokes_def length_replicate)

lemma edits_Suc: "edits (Suc n) = edits n @ [(Suc n, Change (keystrokes (Suc n)) True)]"
  by (simp add: edits_def)

lemma setHistoryIndex_updater_in:
  "0 \<le> i \<Longrightarrow> i < int (length h) \<Longrightarrow> h ! nat i \<noteq> c \<Longrightarrow> setHistoryIndex_updater v h c i = i + 1"
  by (cases v) (simp_all add: js_index_in slice_0_take)

lemma setHistoryIndex_updater_out:
  "int (length h) \<le> i \<Longrightarrow> setHistoryIndex_updater v h c i = i + 1"
  by (cases v) (simp_all add: js_index_out)

lemma setHistory_updater_in:
  "0 \<le> i \<Longrightarrow> i < int (length h) \<Longrightarrow> h ! nat i \<noteq> c \<Longrightarrow>
   setHistory_updater i c h =
     (if nat i + 2 > 100 then tl (take (nat i + 1) h @ [c]) else take (nat i + 1) h @ [c])"
  by (auto simp add: setHistory_updater_def js_index_in slice_0_take Let_def nat_add_distrib min_def)

lemma setHistory_updater_out:
  "int (length h) \<le> i \<Longrightarrow>
   setHistory_updater i c h = (if length h + 1 > 100 then tl (h @ [c]) else h @ [c])"
  by (auto simp add: setHistory_updater_def js_index_out slice_0_take Let_def)

lemma run_edits:
  "n \<le> 99 \<Longrightarrow> run v (edits n) (init []) =
     \<lparr>content = Some (keystrokes n), history = map keystrokes [0..<Suc n],
      historyIndex = int n, debounce = None\<rparr>"
proof (induction n)
  case 0
  show ?case by (simp add: edits_def init_def keystrokes_def)
next
  case (Suc n)
  let ?s = "\<lparr>content = Some (keystrokes n), history = map keystrokes [0..<Suc n],
      historyIndex = int n, debounce = None\<rparr>"
  have s: "run v (edits n) (init []) = ?s" using Suc by simp
  have neq: "map keystrokes [0..<Suc n] ! nat (int n) \<noteq> keystrokes (Suc n)"
    by (simp add: keystrokes_inj nth_append)
  have h: "setHistory_updater (int n) (keystrokes (Suc n)) (map keystrokes [0..<Suc n]) =
      map keystrokes [0..<Suc (Suc n)]"
    using Suc.prems neq by (subst setHistory_updater_in) simp_all
  have i: "setHistoryIndex_updater v (map keystrokes [0..<Suc n]) (keystrokes (Suc n)) (int n) = int n + 1"
    using neq by (intro setHistoryIndex_updater_in) simp_all
  show ?case
    unfolding edits_Suc run_append s
    using h i by (simp add: tick_def handleContentChange_def updateHistory_def)
qed

lemma run_edits_100:
  "run v (edits 100) (init []) =
     \<lparr>content = Some (keystrokes 100), history = map keystrokes [1..<101],
      historyIndex = 100, debounce = None\<rparr>"
proof -
  have e: "edits 100 = edits 99 @ [(100, Change (keystrokes 100) True)]"
    using edits_Suc [of 99] by simp
  have neq: "map keystrokes [0..<100] ! nat 99 \<noteq> keystrokes 100"
    by (simp add: keystrokes_inj)
  have "setHistory_updater 99 (keystrokes 100) (map keystrokes [0..<100]) =
      tl (map keystrokes [0..<100] @ [keystrokes 100])"
    using neq by (subst setHistory_updater_in) simp_all
  also have "map keystrokes [0..<100] @ [keystrokes 100] = map keystrokes [0..<101]"
    using upt_Suc_append [of 0 100] by simp
  also have "tl (map keystrokes [0..<101]) = map keystrokes [1..<101]"
    by (simp add: upt_conv_Cons [of 0 101])
  finally have h: "setHistory_updater 99 (keystrokes 100) (map keystrokes [0..<100]) =
      map keystrokes [1..<101]" .
  have i: "setHistoryIndex_updater v (map keystrokes [0..<100]) (keystrokes 100) 99 = 100"
    using neq setHistoryIndex_updater_in [of 99 "map keystrokes [0..<100]" "keystrokes 100" v]
    by simp
  show ?thesis
    unfolding e run_append
    using h i run_edits [of 99 v]
    by (simp add: tick_def handleContentChange_def updateHistory_def)
qed

subsection \<open>What a commit, an undo and a redo preserve\<close>

text \<open>
  While the index is inside the history, a commit keeps the snapshots pairwise different
  at adjacent positions, and as long as no entry is evicted (index below 99) it leaves
  the index inside the history, on the committed content.  Undo and redo keep the index
  inside the history.
\<close>

lemma commit_same:
  "js_index (history s) (historyIndex s) = Some c \<Longrightarrow> commit v c s = s"
  by (cases v) (simp_all add: commit_def updateHistory_def setHistory_updater_def)

lemma commit_appends:
  "js_index (history s) (historyIndex s) \<noteq> Some c \<Longrightarrow>
   history (commit v c s) = slice (history s) 0 (historyIndex s + 1) @ [c]
   \<or> history (commit v c s) = tl (slice (history s) 0 (historyIndex s + 1)) @ [c]"
  by (cases "slice (history s) 0 (historyIndex s + 1)")
     (simp_all add: commit_def updateHistory_def setHistory_updater_def Let_def)

lemma commit_new:
  assumes "index_ok s" and "js_index (history s) (historyIndex s) \<noteq> Some c"
  shows "history (commit v c s) =
           (if 99 \<le> historyIndex s then tl (take (nat (historyIndex s) + 1) (history s)) @ [c]
            else take (nat (historyIndex s) + 1) (history s) @ [c])"
    and "historyIndex (commit v c s) = historyIndex s + 1"
proof -
  have r: "0 \<le> historyIndex s" "historyIndex s < int (length (history s))"
    using assms(1) by (simp_all add: index_ok_def)
  then have neq: "history s ! nat (historyIndex s) \<noteq> c"
    using assms(2) by (simp add: js_index_in)
  have ne: "take (nat (historyIndex s) + 1) (history s) \<noteq> []"
    using r by auto
  show "history (commit v c s) =
           (if 99 \<le> historyIndex s then tl (take (nat (historyIndex s) + 1) (history s)) @ [c]
            else take (nat (historyIndex s) + 1) (history s) @ [c])"
    using r neq ne by (auto simp add: commit_def updateHistory_def setHistory_updater_in)
  show "historyIndex (commit v c s) = historyIndex s + 1"
    using r neq by (simp add: commit_def updateHistory_def setHistoryIndex_updater_in)
qed

lemma commit_index_ok:
  assumes "index_ok s" and "historyIndex s < 99"
  shows "index_ok (commit v c s)"
    and "js_index (history (commit v c s)) (historyIndex (commit v c s)) = Some c"
proof -
  have r: "0 \<le> historyIndex s" "historyIndex s < int (length (history s))"
    using assms(1) by (simp_all add: index_ok_def)
  show "index_ok (commit v c s)"
  proof (cases "js_index (history s) (historyIndex s) = Some c")
    case True
    then show ?thesis using assms(1) by (simp add: commit_same)
  next
    case False
    show ?thesis
      using commit_new [OF assms(1) False, of v] assms(2) r
      by (simp add: index_ok_def)
  qed
  show "js_index (history (commit v c s)) (historyIndex (commit v c s)) = Some c"
  proof (cases "js_index (history s) (historyIndex s) = Some c")
    case True
    then show ?thesis by (simp add: commit_same)
  next
    case False
    show ?thesis
      using commit_new [OF assms(1) False, of v] assms(2) r
      by (simp add: js_index_def nth_append nat_add_distrib)
  qed
qed

lemma commit_distinct_adj:
  assumes "index_ok s" and "distinct_adj (history s)"
  shows "distinct_adj (history (commit v c s))"
proof (cases "js_index (history s) (historyIndex s) = Some c")
  case True
  then show ?thesis using assms(2) by (simp add: commit_same)
next
  case False
  let ?k = "take (nat (historyIndex s) + 1) (history s)"
  have r: "0 \<le> historyIndex s" "historyIndex s < int (length (history s))"
    using assms(1) by (simp_all add: index_ok_def)
  have "distinct_adj (?k @ drop (nat (historyIndex s) + 1) (history s))"
    using assms(2) by simp
  then have k: "distinct_adj ?k" by (rule distinct_adj_appendD1)
  have ne: "?k \<noteq> []" using r by auto
  have "last ?k = history s ! nat (historyIndex s)"
    using r by (simp add: take_Suc_conv_app_nth)
  moreover have "history s ! nat (historyIndex s) \<noteq> c"
    using False r by (simp add: js_index_def)
  ultimately have kc: "distinct_adj (?k @ [c])"
    using k by (simp add: distinct_adj_append_iff)
  then have "distinct_adj (tl (?k @ [c]))"
    by (cases "?k @ [c]") (auto dest: distinct_adj_ConsD)
  then have "distinct_adj (tl ?k @ [c])" using ne by simp
  with kc show ?thesis
    using commit_new(1) [OF assms(1) False, of v] by simp
qed

lemma undo_index_ok: "index_ok s \<Longrightarrow> index_ok (undo v s)"
  by (auto simp add: index_ok_def undo_def Let_def)

lemma redo_index_ok: "index_ok s \<Longrightarrow> index_ok (redo v s)"
  by (auto simp add: index_ok_def redo_def Let_def)

subsection \<open>C1: the index after an eviction\<close>

text \<open>
  C1 says that the index stays inside the snapshot sequence under every operation, also
  when a commit discards the oldest of more than 100 entries, and that it then points at
  the snapshot just appended.  The code drops the oldest entry but still adds one to the
  index.  In the session \<^term>\<open>edits 100\<close> (an empty document, then 100 insertions of
  one letter) the 100th commit leaves 100 snapshots and index 100: the index equals the
  length, the read \<^verbatim>\<open>history[historyIndex]\<close> is \<^verbatim>\<open>undefined\<close>, and the snapshot just
  appended sits at position 99.  Both variants do the same.
\<close>

theorem eviction_leaves_index_out_of_range:
  "length (history (run v (edits 100) (init []))) = 100
   \<and> historyIndex (run v (edits 100) (init [])) = 100
   \<and> js_index (history (run v (edits 100) (init [])))
        (historyIndex (run v (edits 100) (init []))) = None
   \<and> js_index (history (run v (edits 100) (init []))) 99 = Some (keystrokes 100)
   \<and> \<not> index_ok (run v (edits 100) (init []))"
  unfolding run_edits_100 by (simp add: js_index_def index_ok_def)

subsection \<open>C3: undo and the pending commit\<close>

text \<open>
  C3 says that an undo performed while a debounced commit is pending cancels that commit,
  so that the timer never appends its content afterwards.  \<^verbatim>\<open>part_002\<close> clears the timer
  in \<^verbatim>\<open>undo\<close>; \<^verbatim>\<open>src/App.tsx\<close> does not.  Session: the history is \<open>[a, ab]\<close> at index 1,
  the user types \<open>c\<close> at time 1000 and undoes at 1200.  After the undo the document shows
  \<open>a\<close> and the history is unchanged; at 1700 the timer of \<^verbatim>\<open>src/App.tsx\<close> runs and appends
  \<open>abc\<close>, while \<^verbatim>\<open>part_002\<close> leaves the history as the undo left it.
\<close>

theorem stale_timer_commits_after_undo:
  "history (run SrcApp [(0, Change ''ab'' True), (1000, Change ''abc'' False), (1200, Undo)]
      (init ''a'')) = [''a'', ''ab'']
   \<and> content (run SrcApp [(0, Change ''ab'' True), (1000, Change ''abc'' False), (1200, Undo)]
      (init ''a'')) = Some ''a''
   \<and> history (tick SrcApp 1700 (run SrcApp [(0, Change ''ab'' True), (1000, Change ''abc'' False),
      (1200, Undo)] (init ''a''))) = [''a'', ''ab'', ''abc'']
   \<and> history (tick Part002 1700 (run Part002 [(0, Change ''ab'' True), (1000, Change ''abc'' False),
      (1200, Undo)] (init ''a''))) = [''a'', ''ab'']"
  by (simp add: hist_defs)

text \<open>In \<^verbatim>\<open>part_002\<close> an undo that moves the index leaves no timer behind, at any state.\<close>

lemma undo_cancels_in_part_002:
  "0 < historyIndex s \<Longrightarrow> debounce (undo Part002 s) = None \<and> tick Part002 now (undo Part002 s) = undo Part002 s"
  by (simp add: undo_def tick_def Let_def)

subsection \<open>C4: consecutive identical snapshots\<close>

text \<open>
  C4 says that the history never holds two consecutive identical snapshots, a commit of
  the current snapshot leaving it unchanged.  After the eviction of C1 the index is out of
  range, the comparison \<^verbatim>\<open>prev[historyIndex] === newContent\<close> reads \<^verbatim>\<open>undefined\<close>, and
  the current snapshot is appended again: after \<^term>\<open>edits 100\<close> the user types one
  letter and deletes it within the debounce window; when the timer runs, the last two
  snapshots are equal.
\<close>

theorem repeated_snapshot_after_eviction:
  "history (tick v 1800 (run v (edits 100 @ [(1000, Change (keystrokes 101) False),
        (1100, Change (keystrokes 100) False)]) (init []))) ! 98 = keystrokes 100
   \<and> history (tick v 1800 (run v (edits 100 @ [(1000, Change (keystrokes 101) False),
        (1100, Change (keystrokes 100) False)]) (init []))) ! 99 = keystrokes 100
   \<and> \<not> distinct_adj (history (tick v 1800 (run v (edits 100 @
        [(1000, Change (keystrokes 101) False),
         (1100, Change (keystrokes 100) False)]) (init []))))"
proof -
  let ?s = "tick v 1800 (run v (edits 100 @ [(1000, Change (keystrokes 101) False),
        (1100, Change (keystrokes 100) False)]) (init []))"
  have "setHistory_updater 100 (keystrokes 100) (map keystrokes [1..<101]) =
      tl (map keystrokes [1..<101] @ [keystrokes 100])"
    by (subst setHistory_updater_out) simp_all
  also have "\<dots> = tl (map keystrokes [1..<101]) @ [keystrokes 100]"
    by (simp add: upt_conv_Cons [of 1 101])
  finally have h: "setHistory_updater 100 (keystrokes 100) (map keystrokes [1..<101]) =
      tl (map keystrokes [1..<101]) @ [keystrokes 100]" .
  have hs: "history ?s = tl (map keystrokes [1..<101]) @ [keystrokes 100]"
    unfolding run_append run_edits_100
    using h by (simp add: tick_def handleContentChange_def updateHistory_def)
  have a: "history ?s ! 98 = keystrokes 100" and b: "history ?s ! 99 = keystrokes 100"
    unfolding hs by (simp_all add: nth_append nth_tl)
  have "length (history ?s) = 100" unfolding hs by simp
  then have "\<not> distinct_adj (history ?s)"
    using a b distinct_adj_nth [of "history ?s" 98] by auto
  with a b show ?thesis by simp
qed

subsection \<open>C5: a burst of debounced calls\<close>

lemma handleContentChange_pending:
  "handleContentChange v t c False s = pending s t c"
  by (simp add: handleContentChange_def pending_def Let_def)

lemma handleContentChange_pending_again:
  "handleContentChange v t2 c2 False (pending s1 t c) = pending s1 t2 c2"
  by (simp add: handleContentChange_def pending_def Let_def)

lemma tick_pending_early: "now < t + 700 \<Longrightarrow> tick v now (pending s1 t c) = pending s1 t c"
  by (simp add: tick_def pending_def)

lemma tick_pending_due:
  "t + 700 \<le> now \<Longrightarrow>
   tick v now (pending s1 t c) = (commit v c s1)\<lparr>content := Some c, debounce := None\<rparr>"
  by (simp add: tick_def pending_def commit_def updateHistory_def)

lemma record_calls_pending:
  "within_window ((t, c) # cs) \<Longrightarrow>
   record_calls v cs (pending s1 t c) =
     pending s1 (fst (last ((t, c) # cs))) (snd (last ((t, c) # cs)))"
proof (induction cs arbitrary: t c)
  case Nil
  show ?case by simp
next
  case (Cons b cs)
  obtain t2 c2 where b: "b = (t2, c2)" by (cases b)
  from Cons.prems b have w: "t2 < t + 700" "within_window ((t2, c2) # cs)" by simp_all
  show ?case
    using Cons.IH [OF w(2)] w(1) b
    by (simp add: tick_pending_early handleContentChange_pending_again)
qed

lemma burst_final_state:
  assumes "within_window ((t1, c1) # cs)"
    and "fst (last ((t1, c1) # cs)) + 700 \<le> T"
  shows "tick v T (record_calls v ((t1, c1) # cs) s) =
           (commit v (snd (last ((t1, c1) # cs))) (tick v t1 s))
             \<lparr>content := Some (snd (last ((t1, c1) # cs))), debounce := None\<rparr>"
  using assms
  by (simp add: handleContentChange_pending record_calls_pending tick_pending_due
        del: last.simps within_window.simps)

text \<open>
  C5 as stated says that a burst of debounced calls, each within 700 ms of the one
  before, commits exactly one history entry, equal to the content of the last call.  It
  fails when the last content is the current snapshot: the user types \<open>b\<close> after \<open>a\<close>
  and deletes it again 100 ms later; the one commit that runs finds the content equal to
  \<^verbatim>\<open>prev[historyIndex]\<close> and returns the history as it was, so no entry is committed.
\<close>

theorem burst_ending_on_current_snapshot_commits_nothing:
  "within_window [(0, ''ab''), (100, ''a'')]
   \<and> history (init ''a'') = [''a'']
   \<and> history (tick SrcApp 800 (record_calls SrcApp [(0, ''ab''), (100, ''a'')] (init ''a''))) = [''a'']
   \<and> history (tick Part002 800 (record_calls Part002 [(0, ''ab''), (100, ''a'')] (init ''a''))) = [''a'']
   \<and> debounce (tick Part002 800 (record_calls Part002 [(0, ''ab''), (100, ''a'')] (init ''a''))) = None"
  by (simp add: hist_defs)

text \<open>
  C5 as amended: after such a burst, once 700 ms have passed since its last call, the
  history and the index are those of exactly one commit, of the content of the last call,
  on the state the first call found, and no timer is left.  That commit appends the
  content as the one new entry after the kept prefix (minus its oldest entry when the cap
  evicts) unless the content equals the snapshot at the current index; then the history
  is unchanged.
\<close>

theorem burst_commits_last_content_once:
  assumes "within_window ((t1, c1) # cs)"
    and "fst (last ((t1, c1) # cs)) + 700 \<le> T"
  shows "history (tick v T (record_calls v ((t1, c1) # cs) s)) =
           history (commit v (snd (last ((t1, c1) # cs))) (tick v t1 s))
     \<and> historyIndex (tick v T (record_calls v ((t1, c1) # cs) s)) =
           historyIndex (commit v (snd (last ((t1, c1) # cs))) (tick v t1 s))
     \<and> debounce (tick v T (record_calls v ((t1, c1) # cs) s)) = None
     \<and> (js_index (history (tick v t1 s)) (historyIndex (tick v t1 s))
            = Some (snd (last ((t1, c1) # cs)))
          \<longrightarrow> history (tick v T (record_calls v ((t1, c1) # cs) s)) = history (tick v t1 s))
     \<and> (js_index (history (tick v t1 s)) (historyIndex (tick v t1 s))
            \<noteq> Some (snd (last ((t1, c1) # cs)))
          \<longrightarrow> history (tick v T (record_calls v ((t1, c1) # cs) s))
                = slice (history (tick v t1 s)) 0 (historyIndex (tick v t1 s) + 1)
                  @ [snd (last ((t1, c1) # cs))]
              \<or> history (tick v T (record_calls v ((t1, c1) # cs) s))
                = tl (slice (history (tick v t1 s)) 0 (historyIndex (tick v t1 s) + 1))
                  @ [snd (last ((t1, c1) # cs))])"
proof -
  let ?c = "snd (last ((t1, c1) # cs))" and ?s1 = "tick v t1 s"
  have fin: "tick v T (record_calls v ((t1, c1) # cs) s) =
      (commit v ?c ?s1)\<lparr>content := Some ?c, debounce := None\<rparr>"
    using assms by (rule burst_final_state)
  have same: "js_index (history ?s1) (historyIndex ?s1) = Some ?c \<longrightarrow>
      history (commit v ?c ?s1) = history ?s1"
    by (simp add: commit_same)
  have new: "js_index (history ?s1) (historyIndex ?s1) \<noteq> Some ?c \<longrightarrow>
      history (commit v ?c ?s1) = slice (history ?s1) 0 (historyIndex ?s1 + 1) @ [?c]
      \<or> history (commit v ?c ?s1) = tl (slice (history ?s1) 0 (historyIndex ?s1 + 1)) @ [?c]"
    using commit_appends [of ?s1 ?c v] by blast
  show ?thesis
    unfolding fin using same new by simp
qed

text \<open>C5, a burst that satisfies the hypotheses: \<open>ab\<close> at time 0 and \<open>abc\<close> at time 100 on
  the history \<open>[a]\<close>; at time 800 the history is \<open>[a, abc]\<close>.\<close>

theorem burst_commits_last_content_once_witness:
  "within_window [(0, ''ab''), (100, ''abc'')] \<and> fst (last [(0, ''ab''), (100, ''abc'')]) + 700 \<le> (800 :: nat)
   \<and> history (tick Part002 800 (record_calls Part002 [(0, ''ab''), (100, ''abc'')] (init ''a'')))
       = [''a'', ''abc'']
   \<and> historyIndex (tick Part002 800 (record_calls Part002 [(0, ''ab''), (100, ''abc'')] (init ''a'')))
       = 1"
proof -
  have w: "within_window ((0, ''ab'') # [(100, ''abc'')])" by simp
  have t: "fst (last ((0, ''ab'') # [(100, ''abc'')])) + 700 \<le> (800 :: nat)" by simp
  have c: "commit Part002 ''abc'' (tick Part002 0 (init ''a'')) =
      \<lparr>content = Some ''a'', history = [''a'', ''abc''], historyIndex = 1, debounce = None\<rparr>"
    by (simp add: commit_def hist_defs)
  show ?thesis
    using burst_commits_last_content_once [OF w t, of Part002 "init ''a''"] w t
    by (simp add: c)
qed

subsection \<open>C6: undo followed by redo\<close>

text \<open>
  C6 as stated says that undo followed at once by redo restores the document content
  that was current before the undo, at every reachable state with a positive index.  It
  fails while an edit is typed but not yet committed: the history is \<open>[a, ab]\<close> at index
  1 and the document shows \<open>abX\<close>; undo shows \<open>a\<close>, redo shows the snapshot \<open>ab\<close>, not
  \<open>abX\<close>.
\<close>

theorem undo_redo_loses_pending_edit:
  "0 < historyIndex (run Part002 [(0, Change ''ab'' True), (1000, Change ''abX'' False)] (init ''a''))
   \<and> content (run Part002 [(0, Change ''ab'' True), (1000, Change ''abX'' False)] (init ''a'')) = Some ''abX''
   \<and> content (redo Part002 (undo Part002
        (run Part002 [(0, Change ''ab'' True), (1000, Change ''abX'' False)] (init ''a'')))) = Some ''ab''
   \<and> content (redo SrcApp (undo SrcApp
        (run SrcApp [(0, Change ''ab'' True), (1000, Change ''abX'' False)] (init ''a'')))) = Some ''ab''"
  by (simp add: hist_defs)

text \<open>
  C6 as amended: at every state whose index is positive and inside the history, undo
  followed at once by redo returns the index to its value before the undo, leaves the
  snapshots unchanged and sets the document content to the snapshot at that index (which
  is the content before the undo whenever the document showed that snapshot).
\<close>

theorem undo_redo_restores_snapshot:
  assumes "0 < historyIndex s" and "historyIndex s < int (length (history s))"
  shows "historyIndex (redo v (undo v s)) = historyIndex s
     \<and> history (redo v (undo v s)) = history s
     \<and> content (redo v (undo v s)) = Some (history s ! nat (historyIndex s))"
  using assms by (simp add: undo_def redo_def Let_def js_index_def)

text \<open>C6, a state that satisfies the hypotheses: the history \<open>[a, ab]\<close> at index 1.\<close>

theorem undo_redo_restores_snapshot_witness:
  "historyIndex (redo SrcApp (undo SrcApp (run SrcApp [(0, Change ''ab'' True)] (init ''a'')))) = 1
   \<and> history (redo SrcApp (undo SrcApp (run SrcApp [(0, Change ''ab'' True)] (init ''a'')))) = [''a'', ''ab'']
   \<and> content (redo SrcApp (undo SrcApp (run SrcApp [(0, Change ''ab'' True)] (init ''a'')))) = Some ''ab''"
proof -
  have s: "run SrcApp [(0, Change ''ab'' True)] (init ''a'') =
      \<lparr>content = Some ''ab'', history = [''a'', ''ab''], historyIndex = 1, debounce = None\<rparr>"
    by (simp add: hist_defs)
  show ?thesis
    using undo_redo_restores_snapshot [of "run SrcApp [(0, Change ''ab'' True)] (init ''a'')" SrcApp]
    unfolding s by simp
qed

section \<open>Properties of the rounding\<close>

text \<open>
  The exponent found brackets its argument between two powers of two; rounding never
  crosses a power of two, so a real below \<open>2 ^ k\<close> in magnitude rounds to a finite double
  of magnitude at most \<open>2 ^ k\<close>; and every integer below \<open>2 ^ 53\<close> in magnitude is a
  double.
\<close>

lemma halvings_numeral:
  "halvings (numeral k) x = (if x < 2 then 0 else 1 + halvings (pred_numeral k) (x / 2))"
  by (simp add: numeral_eq_Suc)

lemma doublings_numeral:
  "doublings (numeral k) x = (if 1 \<le> x then 0 else 1 + doublings (pred_numeral k) (2 * x))"
  by (simp add: numeral_eq_Suc)

lemma halvings_spec:
  "1 \<le> x \<Longrightarrow> x < 2 ^ n \<Longrightarrow>
   0 \<le> halvings n x \<and> 2 powi (halvings n x) \<le> x \<and> x < 2 powi (halvings n x + 1)"
proof (induction n arbitrary: x)
  case 0
  then show ?case by simp
next
  case (Suc n)
  show ?case
  proof (cases "x < 2")
    case True
    with Suc.prems show ?thesis by simp
  next
    case False
    with Suc.prems have "1 \<le> x / 2" "x / 2 < 2 ^ n" by simp_all
    from Suc.IH [OF this] have ih: "0 \<le> halvings n (x / 2)"
      "2 powi (halvings n (x / 2)) \<le> x / 2" "x / 2 < 2 powi (halvings n (x / 2) + 1)"
      by simp_all
    have "(2::real) powi (1 + halvings n (x / 2)) = 2 * 2 powi (halvings n (x / 2))"
      by (simp add: power_int_add)
    moreover have "(2::real) powi (1 + halvings n (x / 2) + 1) = 2 * 2 powi (halvings n (x / 2) + 1)"
      by (simp add: power_int_add)
    ultimately show ?thesis using False ih by simp
  qed
qed

lemma doublings_range: "0 \<le> doublings n x \<and> doublings n x \<le> int n"
proof (induction n arbitrary: x)
  case 0
  show ?case by simp
next
  case (Suc n)
  from Suc [of "2 * x"] show ?case by simp
qed

lemma doublings_lower:
  "0 < x \<Longrightarrow> doublings n x = int n \<or> 2 powi (- doublings n x) \<le> x"
proof (induction n arbitrary: x)
  case 0
  then show ?case by simp
next
  case (Suc n)
  show ?case
  proof (cases "1 \<le> x")
    case True
    then show ?thesis by simp
  next
    case False
    from Suc.prems have "0 < 2 * x" by simp
    from Suc.IH [OF this] show ?thesis
    proof
      assume "doublings n (2 * x) = int n"
      with False show ?thesis by simp
    next
      assume a: "2 powi (- doublings n (2 * x)) \<le> 2 * x"
      have "(2::real) powi (- (1 + doublings n (2 * x))) = 2 powi (- doublings n (2 * x)) / 2"
        by (simp add: power_int_diff power_int_minus_divide)
      with a False show ?thesis by simp
    qed
  qed
qed

lemma doublings_upper:
  "x < 1 \<Longrightarrow> 0 < n \<Longrightarrow> x < 2 powi (1 - doublings n x)"
proof (induction n arbitrary: x)
  case 0
  then show ?case by simp
next
  case (Suc n)
  show ?case
  proof (cases "n = 0 \<or> 1 \<le> 2 * x")
    case True
    then have "doublings n (2 * x) = 0" by (cases n) auto
    with Suc.prems show ?thesis by simp
  next
    case False
    then have "2 * x < 1" "0 < n" by simp_all
    from Suc.IH [OF this] have "2 * x < 2 powi (1 - doublings n (2 * x))" .
    moreover have "(2::real) powi (1 - doublings n (2 * x)) = 2 * 2 powi (1 - (1 + doublings n (2 * x)))"
      by (simp add: power_int_diff power_int_minus_divide)
    ultimately show ?thesis using Suc.prems by simp
  qed
qed

lemma exponent_range: "0 < a \<Longrightarrow> a < 2 ^ 1024 \<Longrightarrow> - 1022 \<le> exponent a"
  using halvings_spec [of a 1024] doublings_range [of 1022 a]
  by (auto simp add: exponent_def)

lemma exponent_upper: "0 < a \<Longrightarrow> a < 2 ^ 1024 \<Longrightarrow> a < 2 powi (exponent a + 1)"
  using halvings_spec [of a 1024] doublings_upper [of a 1022]
  by (auto simp add: exponent_def)

lemma exponent_lower:
  "0 < a \<Longrightarrow> a < 2 ^ 1024 \<Longrightarrow> exponent a = - 1022 \<or> 2 powi (exponent a) \<le> a"
  using halvings_spec [of a 1024] doublings_lower [of a 1022]
  by (auto simp add: exponent_def)

lemma round_half_even_of_int: "round_half_even (of_int k) = k"
  by (simp add: round_half_even_def)

lemma round_half_even_le: "z \<le> of_int N \<Longrightarrow> round_half_even z \<le> N"
proof -
  assume a: "z \<le> of_int N"
  then have f: "\<lfloor>z\<rfloor> \<le> N" by (simp add: floor_le_iff)
  show ?thesis
  proof (cases "\<lfloor>z\<rfloor> = N")
    case True
    with a have "z - of_int \<lfloor>z\<rfloor> \<le> 0" by simp
    then show ?thesis using True by (simp add: round_half_even_def Let_def)
  next
    case False
    with f have "\<lfloor>z\<rfloor> + 1 \<le> N" by simp
    then show ?thesis using f by (simp add: round_half_even_def Let_def)
  qed
qed

lemma round_half_even_nonneg: "0 \<le> z \<Longrightarrow> 0 \<le> round_half_even z"
  by (simp add: round_half_even_def Let_def)


lemma double_of_bounded:
  assumes "\<bar>x\<bar> < 2 ^ k" and "k \<le> 1023"
  shows "\<exists>y. double_of x = Fin y \<and> \<bar>y\<bar> \<le> 2 ^ k"
proof (cases "x = 0")
  case True
  then show ?thesis by (simp add: double_of_def)
next
  case False
  define a where "a = \<bar>x\<bar>"
  define e where "e = exponent a"
  define q :: real where "q = 2 powi (e - 52)"
  define m where "m = round_half_even (a / q)"
  have a0: "0 < a" using False by (simp add: a_def)
  have "(2::real) ^ k \<le> 2 ^ 1023" using assms(2) by (intro power_increasing) simp_all
  then have ak: "a < 2 ^ k" and a1023: "a < 2 ^ 1023" using assms(1) by (simp_all add: a_def)
  then have a1024: "a < 2 ^ 1024" by simp
  have up: "a < 2 powi (e + 1)" unfolding e_def using a0 a1024 by (rule exponent_upper)
  have ek: "e + 1 \<le> int k"
  proof (rule ccontr)
    assume "\<not> e + 1 \<le> int k"
    then have ke: "int k \<le> e" by simp
    with exponent_lower [OF a0 a1024] have "2 powi e \<le> a" by (auto simp add: e_def)
    moreover have "(2::real) powi (int k) \<le> 2 powi e"
      using ke by (intro power_int_increasing) simp_all
    ultimately show False using ak by simp
  qed
  have q0: "0 < q" by (simp add: q_def)
  have q53: "2 ^ 53 * q = 2 powi (e + 1)"
  proof -
    have "e + 1 = 53 + (e - 52)" by simp
    then have "(2::real) powi (e + 1) = 2 powi (53 + (e - 52))" by (simp only:)
    also have "\<dots> = 2 powi 53 * 2 powi (e - 52)" by (subst power_int_add) simp_all
    finally show ?thesis by (simp add: q_def)
  qed
  have "a / q < 2 ^ 53" using up q0 q53 by (simp add: divide_less_eq)
  then have "a / q \<le> of_int (2 ^ 53)" by simp
  then have m53: "m \<le> 2 ^ 53" unfolding m_def by (rule round_half_even_le)
  have m0: "0 \<le> m" unfolding m_def using a0 q0 by (intro round_half_even_nonneg) simp
  define y where "y = of_int m * q"
  have y0: "0 \<le> y" using m0 q0 by (simp add: y_def)
  have "y \<le> 2 ^ 53 * q"
  proof -
    have "real_of_int m \<le> real_of_int (2 ^ 53)"
      using m53 by (rule iffD2 [OF of_int_le_iff])
    then have "real_of_int m \<le> 2 ^ 53" by simp
    then show ?thesis unfolding y_def using q0 by (intro mult_right_mono) simp_all
  qed
  also have "\<dots> \<le> 2 powi (int k)"
    unfolding q53 using ek by (intro power_int_increasing) simp_all
  finally have yk: "y \<le> 2 ^ k" by simp
  have "(2::real) ^ k < 2 ^ 1024" using assms(2) by (intro power_strict_increasing) simp_all
  with yk have fin: "\<not> 2 ^ 1024 \<le> y" by simp
  have "double_of x = Fin (if 0 < x then y else - y)"
    using False fin
    by (simp add: double_of_def Let_def a_def [symmetric] e_def [symmetric] q_def [symmetric]
          m_def [symmetric] y_def [symmetric])
  then show ?thesis using y0 yk by auto
qed

lemma double_of_int:
  assumes "\<bar>n\<bar> < 2 ^ 53"
  shows "double_of (real_of_int n) = Fin (real_of_int n)"
proof (cases "n = 0")
  case True
  then show ?thesis by (simp add: double_of_def)
next
  case False
  define a :: real where "a = \<bar>real_of_int n\<bar>"
  define e where "e = exponent a"
  define q :: real where "q = 2 powi (e - 52)"
  have an: "a = of_int \<bar>n\<bar>" by (simp add: a_def)
  have "1 \<le> \<bar>n\<bar>" using False by simp
  then have "real_of_int 1 \<le> real_of_int \<bar>n\<bar>" by (rule iffD2 [OF of_int_le_iff])
  then have a1: "1 \<le> a" by (simp add: an)
  have "real_of_int \<bar>n\<bar> < real_of_int (2 ^ 53)"
    using assms by (rule iffD2 [OF of_int_less_iff])
  then have a53: "a < 2 ^ 53" by (simp add: an)
  then have a1024: "a < 2 ^ 1024" by simp
  have eh: "e = halvings 1024 a" using a1 by (simp add: e_def exponent_def)
  from halvings_spec [OF a1 a1024] have e0: "0 \<le> e" and lo: "2 powi e \<le> a"
    unfolding eh by simp_all
  have e52: "e \<le> 52"
  proof (rule ccontr)
    assume "\<not> e \<le> 52"
    then have "(2::real) powi 53 \<le> 2 powi e" by (intro power_int_increasing) simp_all
    with lo a53 show False by simp
  qed
  define s where "s = nat (52 - e)"
  have qs: "q = 1 / 2 ^ s"
  proof -
    have "e - 52 = - int s" using e52 by (simp add: s_def)
    then show ?thesis by (simp add: q_def power_int_minus_divide)
  qed
  have z: "a / q = of_int (\<bar>n\<bar> * 2 ^ s)" by (simp add: qs an)
  have m: "round_half_even (a / q) = \<bar>n\<bar> * 2 ^ s"
    unfolding z by (rule round_half_even_of_int)
  have y: "of_int (round_half_even (a / q)) * q = a"
    unfolding m by (simp add: qs an)
  have fin: "\<not> 2 ^ 1024 \<le> a" using a1024 by simp
  have "double_of (real_of_int n) = Fin (if 0 < real_of_int n then a else - a)"
    using False fin
    by (simp add: double_of_def Let_def a_def [symmetric] e_def [symmetric] q_def [symmetric] y)
  then show ?thesis by (simp add: a_def)
qed

text \<open>A real of magnitude \<open>2 ^ 1024\<close> or more overflows, and so can a product of two
  finite doubles.\<close>

lemma halvings_exhausted: "2 ^ n \<le> x \<Longrightarrow> halvings n x = int n"
proof (induction n arbitrary: x)
  case 0
  show ?case by simp
next
  case (Suc n)
  have "(2::real) \<le> 2 ^ Suc n" by simp
  then have "2 \<le> x" using Suc.prems by (rule order_trans)
  moreover from Suc.prems have "2 ^ n \<le> x / 2" by simp
  ultimately have "2 \<le> x" "2 ^ n \<le> x / 2" by simp_all
  with Suc.IH [of "x / 2"] show ?case by simp
qed

lemma round_half_even_ge: "of_int N \<le> z \<Longrightarrow> N \<le> round_half_even z"
proof -
  assume "of_int N \<le> z"
  then have "N \<le> \<lfloor>z\<rfloor>" by (simp add: le_floor_iff)
  then show ?thesis by (simp add: round_half_even_def Let_def)
qed

lemma double_of_overflow:
  assumes "2 ^ 1024 \<le> x"
  shows "double_of x = PosInf"
proof -
  have x0: "0 < x" using assms by (rule less_le_trans [rotated]) simp
  then have a: "\<bar>x\<bar> = x" by simp
  have "(1::real) \<le> 2 ^ 1024" by simp
  then have x1: "1 \<le> x" using assms by (rule order_trans)
  have e: "exponent x = 1024"
    using halvings_exhausted [OF assms] x1 by (simp add: exponent_def)
  have q: "(2::real) powi (1024 - 52) = 2 ^ 972" by simp
  have "(2::real) ^ 1024 = 2 ^ 52 * 2 ^ 972" by (simp add: power_add [symmetric])
  with assms have "of_int (2 ^ 52) \<le> x / 2 ^ 972" by (simp add: le_divide_eq)
  then have "2 ^ 52 \<le> round_half_even (x / 2 ^ 972)" by (rule round_half_even_ge)
  then have "real_of_int (2 ^ 52) \<le> real_of_int (round_half_even (x / 2 ^ 972))"
    by (rule iffD2 [OF of_int_le_iff])
  then have "2 ^ 52 * 2 ^ 972 \<le> real_of_int (round_half_even (x / 2 ^ 972)) * 2 ^ 972"
    by (intro mult_right_mono) simp_all
  then have "2 ^ 1024 \<le> real_of_int (round_half_even (x / 2 ^ 972)) * 2 ^ 972"
    by (simp add: power_add [symmetric])
  then show ?thesis
    using x0 by (simp only: double_of_def Let_def a e q) simp
qed

lemma dbl_mul_overflows: "dbl_mul (Fin (2 ^ 1023)) (Fin 4) = PosInf"
proof -
  have "(2::real) ^ 1024 \<le> 2 ^ 1023 * 4" by simp
  then show ?thesis by (simp only: dbl_mul.simps double_of_overflow)
qed

text \<open>Rounding at the numbers of the sample scroll event below: \<open>17 / 23\<close> is
  \<open>0.7391304347826086\<close> as a double, its product with 161 is \<open>118.99999999999999\<close>, and
  129 minus that is \<open>10.000000000000014\<close>.\<close>

lemmas double_unfold = double_of_def Let_def
lemmas exponent_eval = exponent_def halvings_numeral doublings_numeral
lemmas rounding_eval = round_half_even_def Let_def

lemma double_of_17_23: "double_of (17 / 23) = Fin (3328747550665149 / 2 ^ 52)"
  apply (simp only: double_unfold)
  apply (simp add: exponent_eval)
  apply (simp add: rounding_eval)
  done

lemma double_of_ratio_times_161:
  "double_of (3328747550665149 / 2 ^ 52 * 161) = Fin (8373880557142015 / 2 ^ 46)"
  apply (simp only: double_unfold)
  apply (simp add: exponent_eval)
  apply (simp add: rounding_eval)
  done

lemma double_of_129_minus_target:
  "double_of (129 - 8373880557142015 / 2 ^ 46) = Fin (703687441776641 / 2 ^ 46)"
  apply (simp only: double_unfold)
  apply (simp add: exponent_eval)
  apply (simp add: rounding_eval)
  done

section \<open>Properties of the Scroll Synchronizer\<close>

lemma scroll_range:
  assumes "dom_geometry a"
  shows "dbl_sub (Fin (real_of_int (scrollHeight a))) (Fin (real_of_int (clientHeight a)))
         = Fin (real_of_int (scrollHeight a - clientHeight a))"
    and "\<bar>real_of_int (scrollHeight a - clientHeight a)\<bar> < 2 ^ 31"
proof -
  have b: "\<bar>scrollHeight a - clientHeight a\<bar> < 2 ^ 31"
    using assms by (auto simp add: dom_geometry_def abs_less_iff)
  then have "\<bar>scrollHeight a - clientHeight a\<bar> < 2 ^ 53" by simp
  from double_of_int [OF this]
  show "dbl_sub (Fin (real_of_int (scrollHeight a))) (Fin (real_of_int (clientHeight a)))
         = Fin (real_of_int (scrollHeight a - clientHeight a))"
    by simp
  have "real_of_int \<bar>scrollHeight a - clientHeight a\<bar> < real_of_int (2 ^ 31)"
    using b by (rule iffD2 [OF of_int_less_iff])
  then show "\<bar>real_of_int (scrollHeight a - clientHeight a)\<bar> < 2 ^ 31" by simp
qed

lemma percentage_rounded:
  assumes "dom_geometry a" and "scrollHeight a \<noteq> clientHeight a"
  shows "percentage a = double_of (scrollTop a / real_of_int (scrollHeight a - clientHeight a))"
  using assms scroll_range(1) [OF assms(1)] by (simp add: percentage_def)

lemma percentage_bounded:
  assumes "dom_geometry a" and "scrollHeight a \<noteq> clientHeight a"
  shows "\<exists>r. percentage a = Fin r \<and> \<bar>r\<bar> \<le> 2 ^ 53"
proof -
  let ?d = "real_of_int (scrollHeight a - clientHeight a)"
  have "1 \<le> \<bar>scrollHeight a - clientHeight a\<bar>" using assms(2) by simp
  then have "real_of_int 1 \<le> real_of_int \<bar>scrollHeight a - clientHeight a\<bar>"
    by (rule iffD2 [OF of_int_le_iff])
  then have d1: "1 \<le> \<bar>?d\<bar>" by simp
  have "\<bar>scrollTop a / ?d\<bar> = \<bar>scrollTop a\<bar> / \<bar>?d\<bar>" by simp
  also have "\<dots> \<le> \<bar>scrollTop a\<bar> / 1"
    using d1 by (intro divide_left_mono) simp_all
  also have "\<dots> = \<bar>scrollTop a\<bar>" by simp
  also have "\<dots> < 2 ^ 53" using assms(1) by (simp add: dom_geometry_def)
  finally have "\<bar>scrollTop a / ?d\<bar> < 2 ^ 53" .
  from double_of_bounded [OF this] show ?thesis
    unfolding percentage_rounded [OF assms] by simp
qed

lemma targetScroll_finite:
  assumes "dom_geometry a" and "dom_geometry b" and "scrollHeight a \<noteq> clientHeight a"
  shows "finite_num (targetScroll a b)"
proof -
  from percentage_bounded [OF assms(1,3)] obtain r where
    r: "percentage a = Fin r" "\<bar>r\<bar> \<le> 2 ^ 53" by blast
  let ?d = "real_of_int (scrollHeight b - clientHeight b)"
  have d: "\<bar>?d\<bar> < 2 ^ 31" by (rule scroll_range(2) [OF assms(2)])
  have "\<bar>r * ?d\<bar> = \<bar>r\<bar> * \<bar>?d\<bar>" by (simp add: abs_mult)
  also have "\<dots> \<le> 2 ^ 53 * 2 ^ 31"
    using r(2) d by (intro mult_mono) simp_all
  also have "\<dots> < (2::real) ^ 85" by simp
  finally have "\<bar>r * ?d\<bar> < 2 ^ 85" .
  from double_of_bounded [OF this] obtain y where "double_of (r * ?d) = Fin y" by auto
  then show ?thesis
    using r(1) scroll_range(1) [OF assms(2)] by (simp add: targetScroll_def)
qed

lemma targetScroll_NaN:
  assumes "dom_geometry a" and "scrollHeight a = clientHeight a" and "scrollTop a = 0"
  shows "percentage a = NaN" and "targetScroll a b = NaN"
proof -
  show p: "percentage a = NaN"
    using assms scroll_range(1) [OF assms(1)] by (simp add: percentage_def)
  show "targetScroll a b = NaN"
    by (simp add: targetScroll_def p)
qed

lemma assign_scrollTop_cases:
  "assign_scrollTop v b target = Some x \<Longrightarrow> x = target"
  by (cases v) (auto split: if_splits)

text \<open>
  C2 as stated says that the ratio computed by \<^verbatim>\<open>handleScroll\<close> is never \<^verbatim>\<open>NaN\<close> and is
  taken as 0 when the source pane's \<^verbatim>\<open>scrollHeight\<close> equals its \<^verbatim>\<open>clientHeight\<close>.  The
  handler divides without a guard: a pane of height 500 whose content is 500 high, at
  \<^verbatim>\<open>scrollTop\<close> 0, gives the ratio \<open>0 / 0\<close>, which is \<^verbatim>\<open>NaN\<close> and not 0, and
  \<^verbatim>\<open>src/App.tsx\<close> assigns the \<^verbatim>\<open>NaN\<close> product to the preview's \<^verbatim>\<open>scrollTop\<close>.
\<close>

theorem scroll_ratio_nan_when_content_fits:
  "percentage \<lparr>scrollTop = 0, scrollHeight = 500, clientHeight = 500\<rparr> = NaN
   \<and> percentage \<lparr>scrollTop = 0, scrollHeight = 500, clientHeight = 500\<rparr> \<noteq> Fin 0
   \<and> handleScroll SrcApp Editor
        (Some \<lparr>scrollTop = 0, scrollHeight = 500, clientHeight = 500\<rparr>)
        (Some \<lparr>scrollTop = 30, scrollHeight = 900, clientHeight = 500\<rparr>) = Some (Preview, NaN)
   \<and> \<not> finite_num NaN"
  by (simp add: percentage_def targetScroll_def handleScroll_def double_of_def)

text \<open>
  C2 as amended: for every scroll event on panes with the DOM's scroll geometry whose
  source pane \<open>a\<close> has \<^verbatim>\<open>scrollHeight\<close> different from \<^verbatim>\<open>clientHeight\<close>, the ratio is a
  finite number, the double nearest to \<open>scrollTop / (scrollHeight - clientHeight)\<close>, and
  so is the target, its rounded product with the other pane's scroll range; the target
  is what \<^verbatim>\<open>src/App.tsx\<close> assigns to the other pane's \<^verbatim>\<open>scrollTop\<close> and the only value
  \<^verbatim>\<open>part_002\<close> can assign, whichever pane is the source.  When the two heights are equal
  (the content fits, \<^verbatim>\<open>scrollTop\<close> is 0) nothing guards the division: the ratio is
  \<^verbatim>\<open>NaN\<close>; \<^verbatim>\<open>part_002\<close> then assigns nothing, because its threshold comparison with
  \<^verbatim>\<open>NaN\<close> is false, and \<^verbatim>\<open>src/App.tsx\<close> assigns \<^verbatim>\<open>NaN\<close>.
\<close>

theorem scroll_ratio_finite_unless_content_fits:
  assumes "dom_geometry a" and "dom_geometry b"
  shows "(scrollHeight a \<noteq> clientHeight a \<longrightarrow>
      percentage a = double_of (scrollTop a / real_of_int (scrollHeight a - clientHeight a))
      \<and> finite_num (percentage a)
      \<and> finite_num (targetScroll a b)
      \<and> handleScroll SrcApp Editor (Some a) (Some b) = Some (Preview, targetScroll a b)
      \<and> handleScroll SrcApp Preview (Some b) (Some a) = Some (Editor, targetScroll a b)
      \<and> (\<forall>w x. handleScroll Part002 Editor (Some a) (Some b) = Some (w, x)
                 \<longrightarrow> w = Preview \<and> x = targetScroll a b)
      \<and> (\<forall>w x. handleScroll Part002 Preview (Some b) (Some a) = Some (w, x)
                 \<longrightarrow> w = Editor \<and> x = targetScroll a b))
   \<and> (scrollHeight a = clientHeight a \<and> scrollTop a = 0 \<longrightarrow>
      percentage a = NaN
      \<and> handleScroll SrcApp Editor (Some a) (Some b) = Some (Preview, NaN)
      \<and> handleScroll SrcApp Preview (Some b) (Some a) = Some (Editor, NaN)
      \<and> handleScroll Part002 Editor (Some a) (Some b) = None
      \<and> handleScroll Part002 Preview (Some b) (Some a) = None)"
proof -
  have fits: "percentage a = NaN
      \<and> handleScroll SrcApp Editor (Some a) (Some b) = Some (Preview, NaN)
      \<and> handleScroll SrcApp Preview (Some b) (Some a) = Some (Editor, NaN)
      \<and> handleScroll Part002 Editor (Some a) (Some b) = None
      \<and> handleScroll Part002 Preview (Some b) (Some a) = None"
    if "scrollHeight a = clientHeight a" and "scrollTop a = 0"
    using targetScroll_NaN(1) [OF assms(1) that] targetScroll_NaN(2) [OF assms(1) that, of b]
    by (simp add: handleScroll_def)
  have ratio: "percentage a = double_of (scrollTop a / real_of_int (scrollHeight a - clientHeight a))
      \<and> finite_num (percentage a) \<and> finite_num (targetScroll a b)"
    if "scrollHeight a \<noteq> clientHeight a"
    using percentage_rounded [OF assms(1) that] percentage_bounded [OF assms(1) that]
      targetScroll_finite [OF assms that]
    by auto
  have src: "handleScroll SrcApp Editor (Some a) (Some b) = Some (Preview, targetScroll a b)
      \<and> handleScroll SrcApp Preview (Some b) (Some a) = Some (Editor, targetScroll a b)"
    by (simp add: handleScroll_def)
  have p2: "w = Preview \<and> x = targetScroll a b"
    if "handleScroll Part002 Editor (Some a) (Some b) = Some (w, x)" for w x
    using that by (auto simp add: handleScroll_def split: if_splits)
  have p2': "w = Editor \<and> x = targetScroll a b"
    if "handleScroll Part002 Preview (Some b) (Some a) = Some (w, x)" for w x
    using that by (auto simp add: handleScroll_def split: if_splits)
  show ?thesis
    using fits ratio src p2 p2' by blast
qed

text \<open>C2, panes that satisfy the hypotheses: the editor at 17 of a range of 23, the
  preview at 129 of a range of 161.  The ratio is the double \<open>0.7391304347826086\<close>, the
  target the double \<open>118.99999999999999\<close>, which lies more than 10 from 129, so both
  variants assign it.  With an editor whose content fits, \<^verbatim>\<open>part_002\<close> assigns nothing.\<close>

theorem scroll_ratio_finite_unless_content_fits_witness:
  "dom_geometry \<lparr>scrollTop = 17, scrollHeight = 523, clientHeight = 500\<rparr>
   \<and> dom_geometry \<lparr>scrollTop = 129, scrollHeight = 661, clientHeight = 500\<rparr>
   \<and> percentage \<lparr>scrollTop = 17, scrollHeight = 523, clientHeight = 500\<rparr>
       = Fin (3328747550665149 / 2 ^ 52)
   \<and> handleScroll SrcApp Editor
        (Some \<lparr>scrollTop = 17, scrollHeight = 523, clientHeight = 500\<rparr>)
        (Some \<lparr>scrollTop = 129, scrollHeight = 661, clientHeight = 500\<rparr>)
       = Some (Preview, Fin (8373880557142015 / 2 ^ 46))
   \<and> handleScroll Part002 Editor
        (Some \<lparr>scrollTop = 17, scrollHeight = 523, clientHeight = 500\<rparr>)
        (Some \<lparr>scrollTop = 129, scrollHeight = 661, clientHeight = 500\<rparr>)
       = Some (Preview, Fin (8373880557142015 / 2 ^ 46))
   \<and> dom_geometry \<lparr>scrollTop = 0, scrollHeight = 500, clientHeight = 500\<rparr>
   \<and> handleScroll Part002 Editor
        (Some \<lparr>scrollTop = 0, scrollHeight = 500, clientHeight = 500\<rparr>)
        (Some \<lparr>scrollTop = 129, scrollHeight = 661, clientHeight = 500\<rparr>) = None"
proof -
  let ?a = "\<lparr>scrollTop = 17, scrollHeight = 523, clientHeight = 500\<rparr>"
  let ?b = "\<lparr>scrollTop = 129, scrollHeight = 661, clientHeight = 500\<rparr>"
  let ?c = "\<lparr>scrollTop = 0, scrollHeight = 500, clientHeight = 500\<rparr>"
  have ga: "dom_geometry ?a" and gb: "dom_geometry ?b" and gc: "dom_geometry ?c"
    by (simp_all add: dom_geometry_def)
  from scroll_ratio_finite_unless_content_fits [OF gc gb]
  have fits: "handleScroll Part002 Editor (Some ?c) (Some ?b) = None"
    by simp
  note T = scroll_ratio_finite_unless_content_fits [OF ga gb]
  from T have p: "percentage ?a = Fin (3328747550665149 / 2 ^ 52)"
    by (simp add: double_of_17_23)
  have rb: "dbl_sub (Fin (real_of_int (scrollHeight ?b))) (Fin (real_of_int (clientHeight ?b)))
      = Fin 161"
    using scroll_range(1) [OF gb] by simp
  have t: "targetScroll ?a ?b = Fin (8373880557142015 / 2 ^ 46)"
    unfolding targetScroll_def p rb by (simp only: dbl_mul.simps double_of_ratio_times_161)
  from T have s: "handleScroll SrcApp Editor (Some ?a) (Some ?b)
      = Some (Preview, Fin (8373880557142015 / 2 ^ 46))"
    unfolding t by simp
  have "dbl_sub (Fin (scrollTop ?b)) (Fin (8373880557142015 / 2 ^ 46))
      = Fin (703687441776641 / 2 ^ 46)"
    by (simp only: dbl_sub.simps pane.simps double_of_129_minus_target)
  then have "handleScroll Part002 Editor (Some ?a) (Some ?b)
      = Some (Preview, Fin (8373880557142015 / 2 ^ 46))"
    by (simp add: handleScroll_def t)
  with ga gb gc p s fits show ?thesis by simp
qed

section \<open>Properties of the Position Mapper\<close>

subsection \<open>Reading back a line number\<close>

text \<open>\<^verbatim>\<open>parseInt\<close> reads the decimal string of a natural number back as that number, so
  the line of an annotated element is the line it was tagged with.\<close>

lemma of_char_digit: "d < 10 \<Longrightarrow> (of_char (char_of (48 + d) :: char) :: nat) = 48 + d"
  by (simp add: of_char_of)

lemma toString_not_Nil: "toString n \<noteq> []"
  by (subst toString.simps) simp

lemma toString_digits: "c \<in> set (toString n) \<Longrightarrow> 48 \<le> (of_char c :: nat) \<and> (of_char c :: nat) \<le> 57"
proof (induction n rule: toString.induct)
  case (1 n)
  show ?case
  proof (cases "n < 10")
    case True
    with "1.prems" have "c = char_of (48 + n)"
      by (subst (asm) toString.simps) simp
    with True show ?thesis by (simp add: of_char_digit)
  next
    case False
    with "1.prems" have "c \<in> set (toString (n div 10)) \<or> c = char_of (48 + n mod 10)"
      by (subst (asm) toString.simps) auto
    then show ?thesis
    proof
      assume "c \<in> set (toString (n div 10))"
      with "1.IH" False show ?thesis by simp
    next
      assume "c = char_of (48 + n mod 10)"
      then show ?thesis by (simp add: of_char_digit)
    qed
  qed
qed

lemma digit_of_decimal:
  "48 \<le> (of_char c :: nat) \<Longrightarrow> (of_char c :: nat) \<le> 57 \<Longrightarrow> digit_of 10 c = Some (of_char c - 48)"
  by (auto simp add: digit_of_def Let_def)

lemma digits_value_snoc:
  "digits_value r (ds @ [c]) =
     r * digits_value r ds + (case digit_of r c of None \<Rightarrow> 0 | Some k \<Rightarrow> k)"
  by (simp add: digits_value_def)

lemma digits_value_toString: "digits_value 10 (toString n) = n"
proof (induction n rule: toString.induct)
  case (1 n)
  show ?case
  proof (cases "n < 10")
    case True
    then show ?thesis
      by (subst toString.simps) (simp add: digits_value_def digit_of_decimal of_char_digit)
  next
    case False
    have d: "digit_of 10 (char_of (48 + n mod 10)) = Some (n mod 10)"
      by (subst digit_of_decimal) (simp_all add: of_char_digit)
    from False "1.IH" show ?thesis
      by (subst toString.simps) (simp add: digits_value_snoc d)
  qed
qed

lemma dropWhile_none: "(\<And>c. c \<in> set xs \<Longrightarrow> \<not> P c) \<Longrightarrow> dropWhile P xs = xs"
  by (cases xs) auto

lemma parseInt_toString: "parseInt (toString n) = Fin (real n)"
proof -
  let ?s = "toString n"
  have dig: "48 \<le> (of_char c :: nat) \<and> (of_char c :: nat) \<le> 57" if "c \<in> set ?s" for c
    using that by (rule toString_digits)
  have ws: "dropWhile is_ws ?s = ?s"
  proof (rule dropWhile_none)
    fix c assume "c \<in> set ?s"
    from dig [OF this] show "\<not> is_ws c" by (auto simp add: is_ws_def)
  qed
  have sign: "take 1 ?s \<noteq> ''-''" "take 1 ?s \<noteq> ''+''"
  proof -
    have "hd ?s \<in> set ?s" using toString_not_Nil by simp
    from dig [OF this] have "hd ?s \<noteq> CHR ''-''" "hd ?s \<noteq> CHR ''+''" by auto
    then show "take 1 ?s \<noteq> ''-''" "take 1 ?s \<noteq> ''+''"
      by (cases ?s; simp)+
  qed
  have hex: "take 2 ?s \<noteq> ''0x''" "take 2 ?s \<noteq> ''0X''"
  proof -
    have "CHR ''x'' \<notin> set ?s" "CHR ''X'' \<notin> set ?s" using dig by fastforce+
    moreover have "set (take 2 ?s) \<subseteq> set ?s" by (rule set_take_subset)
    ultimately show "take 2 ?s \<noteq> ''0x''" "take 2 ?s \<noteq> ''0X''" by auto
  qed
  have all: "takeWhile (\<lambda>c. digit_of 10 c \<noteq> None) ?s = ?s"
    unfolding takeWhile_eq_all_conv using dig by (simp add: digit_of_decimal)
  show ?thesis
    by (simp only: parseInt_def Let_def ws sign hex all simp_thms if_False
          toString_not_Nil digits_value_toString)
qed

lemma line_of_toString: "line_of \<lparr>elem_id = i, data_line = Some (toString n)\<rparr> = Fin (real n)"
  by (simp add: line_of_def toString_not_Nil parseInt_toString)

lemma line_of_annotated: "line_of (annotated i n) = Fin (real n)"
  by (simp add: annotated_def line_of_toString)

lemma has_data_line_annotated: "has_data_line (annotated i n)"
  by (simp add: annotated_def has_data_line_def)

lemma not_has_data_line_plain: "\<not> has_data_line (plain i)"
  by (simp add: plain_def has_data_line_def)

lemma split_not_Nil: "split sep s \<noteq> []"
  by (induction s) auto

lemma length_split: "length (split sep s) = count_list s sep + 1"
  using split_not_Nil [of sep] by (induction s) (auto simp add: Suc_pred)

lemma lineNumber_count: "lineNumber val cursor = count_list (take cursor val) nl + 1"
  by (simp add: lineNumber_def length_split substring_def min_def)

lemma find_target_first:
  assumes "i < length es" and "js_ge (line_of (es ! i)) (Fin (real n))"
    and "\<And>j. j < i \<Longrightarrow> \<not> js_ge (line_of (es ! j)) (Fin (real n))"
  shows "find_target es n = Some (es ! i)"
proof -
  have "List.find (\<lambda>el. js_ge (line_of el) (Fin (real n))) es = Some (es ! i)"
    unfolding find_Some_iff using assms by blast
  then show ?thesis by (simp add: find_target_def)
qed

lemma find_target_fallback:
  assumes none: "\<And>e. e \<in> set es \<Longrightarrow> \<not> js_ge (line_of e) (Fin (real n))"
    and i: "i < length es" and le: "js_le (line_of (es ! i)) (Fin (real n))"
    and later: "\<And>j. i < j \<Longrightarrow> j < length es \<Longrightarrow> \<not> js_le (line_of (es ! j)) (Fin (real n))"
  shows "find_target es n = Some (es ! i)"
proof -
  have a: "List.find (\<lambda>el. js_ge (line_of el) (Fin (real n))) es = None"
    unfolding find_None_iff using none by blast
  let ?k = "length es - Suc i"
  have k: "?k < length (rev es)" using i by simp
  have ki: "rev es ! ?k = es ! i" using i by (simp add: rev_nth)
  have "\<not> js_le (line_of (rev es ! j)) (Fin (real n))" if "j < ?k" for j
  proof -
    have "rev es ! j = es ! (length es - Suc j)" using that i by (simp add: rev_nth)
    moreover have "i < length es - Suc j" "length es - Suc j < length es" using that i by simp_all
    ultimately show ?thesis using later by simp
  qed
  with k ki le have "List.find (\<lambda>el. js_le (line_of el) (Fin (real n))) (rev es) = Some (es ! i)"
    unfolding find_Some_iff by (intro exI [of _ ?k]) simp
  with a show ?thesis by (simp add: find_target_def)
qed

lemma find_target_Nil: "find_target [] n = None"
  by (simp add: find_target_def)

subsection \<open>C7: a click in the editor\<close>

text \<open>
  C7: on a click in the editor while sync mode is active, the clicked line is the number
  of newline characters before the caret plus one (3 for the content
  \<^verbatim>\<open>line1\nline2\nline3\<close> with the caret at index 12); the handler resolves to the first
  annotated element, in document order, whose line is at least the clicked line, and when
  there is none to the last annotated element whose line is at most the clicked line;
  with the annotations 2, 5, 9 a click on line 6 (five newlines before the caret) and a
  click on line 12 both resolve to the element annotated 9; and with no annotated element
  the click does nothing.
\<close>

theorem editor_click_resolves_line:
  "lineNumber val cursor = count_list (take cursor val) nl + 1
   \<and> lineNumber (''line1'' @ [nl] @ ''line2'' @ [nl] @ ''line3'') 12 = 3
   \<and> (\<forall>i. i < length (filter has_data_line ds)
          \<and> js_ge (line_of (filter has_data_line ds ! i)) (Fin (real (lineNumber val cursor)))
          \<and> (\<forall>j. j < i \<longrightarrow>
                \<not> js_ge (line_of (filter has_data_line ds ! j)) (Fin (real (lineNumber val cursor))))
        \<longrightarrow> handleEditorClick True val cursor (Some ds) = Some (filter has_data_line ds ! i))
   \<and> (\<forall>i. (\<forall>e \<in> set (filter has_data_line ds).
                \<not> js_ge (line_of e) (Fin (real (lineNumber val cursor))))
          \<and> i < length (filter has_data_line ds)
          \<and> js_le (line_of (filter has_data_line ds ! i)) (Fin (real (lineNumber val cursor)))
          \<and> (\<forall>j. i < j \<and> j < length (filter has_data_line ds) \<longrightarrow>
                \<not> js_le (line_of (filter has_data_line ds ! j)) (Fin (real (lineNumber val cursor))))
        \<longrightarrow> handleEditorClick True val cursor (Some ds) = Some (filter has_data_line ds ! i))
   \<and> (filter has_data_line ds = [] \<longrightarrow> handleEditorClick True val cursor (Some ds) = None)
   \<and> handleEditorClick True (replicate 5 nl) 5
        (Some [annotated 0 2, annotated 1 5, annotated 2 9]) = Some (annotated 2 9)
   \<and> handleEditorClick True (replicate 11 nl) 11
        (Some [annotated 0 2, annotated 1 5, annotated 2 9]) = Some (annotated 2 9)"
proof -
  let ?es = "[annotated 0 2, annotated 1 5, annotated 2 9]"
  have ex: "lineNumber (''line1'' @ [nl] @ ''line2'' @ [nl] @ ''line3'') 12 = 3"
    by (simp add: lineNumber_count nl_def)
  have "find_target ?es 6 = Some (?es ! 2)"
  proof (rule find_target_first)
    show "2 < length ?es" by simp
    show "js_ge (line_of (?es ! 2)) (Fin (real 6))" by (simp add: line_of_annotated)
    fix j :: nat assume "j < 2"
    then have "j = 0 \<or> j = 1" by auto
    then show "\<not> js_ge (line_of (?es ! j)) (Fin (real 6))"
      by (auto simp add: line_of_annotated)
  qed
  then have six: "find_target ?es 6 = Some (annotated 2 9)" by simp
  have "find_target ?es 12 = Some (?es ! 2)"
  proof (rule find_target_fallback)
    fix e assume "e \<in> set ?es"
    then show "\<not> js_ge (line_of e) (Fin (real 12))"
      by (auto simp add: line_of_annotated)
  next
    show "2 < length ?es" by simp
    show "js_le (line_of (?es ! 2)) (Fin (real 12))"
      by (simp add: line_of_annotated js_le_def)
    fix j :: nat assume "2 < j" "j < length ?es"
    then show "\<not> js_le (line_of (?es ! j)) (Fin (real 12))" by simp
  qed
  then have twelve: "find_target ?es 12 = Some (annotated 2 9)" by simp
  have all_shown: "filter has_data_line ?es = ?es"
    by (simp add: has_data_line_annotated)
  have "lineNumber (replicate 5 nl) 5 = 6"
    by (simp add: lineNumber_count eval_nat_numeral)
  with six all_shown have click6: "handleEditorClick True (replicate 5 nl) 5 (Some ?es)
      = Some (annotated 2 9)"
    by (simp add: handleEditorClick_def)
  have "lineNumber (replicate 11 nl) 11 = 12"
    by (simp add: lineNumber_count eval_nat_numeral)
  with twelve all_shown have click12: "handleEditorClick True (replicate 11 nl) 11 (Some ?es)
      = Some (annotated 2 9)"
    by (simp add: handleEditorClick_def)
  let ?shown = "filter has_data_line ds" and ?n = "Fin (real (lineNumber val cursor))"
  have count: "lineNumber val cursor = count_list (take cursor val) nl + 1"
    by (rule lineNumber_count)
  have first: "\<forall>i. i < length ?shown \<and> js_ge (line_of (?shown ! i)) ?n
        \<and> (\<forall>j. j < i \<longrightarrow> \<not> js_ge (line_of (?shown ! j)) ?n)
      \<longrightarrow> handleEditorClick True val cursor (Some ds) = Some (?shown ! i)"
    by (auto simp add: handleEditorClick_def intro: find_target_first)
  have fallback: "\<forall>i. (\<forall>e \<in> set ?shown. \<not> js_ge (line_of e) ?n)
        \<and> i < length ?shown \<and> js_le (line_of (?shown ! i)) ?n
        \<and> (\<forall>j. i < j \<and> j < length ?shown \<longrightarrow> \<not> js_le (line_of (?shown ! j)) ?n)
      \<longrightarrow> handleEditorClick True val cursor (Some ds) = Some (?shown ! i)"
    by (auto simp add: handleEditorClick_def intro: find_target_fallback)
  have noop: "?shown = [] \<longrightarrow> handleEditorClick True val cursor (Some ds) = None"
    by (simp add: handleEditorClick_def find_target_Nil)
  show ?thesis
    by (intro conjI count ex first fallback noop click6 click12)
qed

text \<open>C7, clicks that satisfy the hypotheses, on a preview of one plain element and the
  elements annotated 2, 5 and 9: line 3 resolves to the element annotated 5 (first
  search), line 10 to the element annotated 9 (fallback), and a preview without an
  annotated element gives nothing.\<close>

theorem editor_click_resolves_line_witness:
  "handleEditorClick True (''line1'' @ [nl] @ ''line2'' @ [nl] @ ''line3'') 12
      (Some [plain 10, annotated 0 2, annotated 1 5, annotated 2 9]) = Some (annotated 1 5)
   \<and> handleEditorClick True (replicate 9 nl) 9
      (Some [plain 10, annotated 0 2, annotated 1 5, annotated 2 9]) = Some (annotated 2 9)
   \<and> handleEditorClick True [] 0 (Some [plain 10]) = None"
proof -
  let ?ds = "[plain 10, annotated 0 2, annotated 1 5, annotated 2 9]"
  let ?doc = "''line1'' @ [nl] @ ''line2'' @ [nl] @ ''line3''"
  have shown: "filter has_data_line ?ds = [annotated 0 2, annotated 1 5, annotated 2 9]"
    by (simp add: has_data_line_annotated not_has_data_line_plain)
  have l3: "lineNumber ?doc 12 = 3"
    using editor_click_resolves_line [of ?doc 12 ?ds] by (elim conjE)
  have l10: "lineNumber (replicate 9 nl) 9 = 10"
    using editor_click_resolves_line [of "replicate 9 nl" 9 ?ds]
    by (elim conjE) (simp add: eval_nat_numeral)
  have "handleEditorClick True ?doc 12 (Some ?ds) = Some (filter has_data_line ?ds ! 1)"
  proof -
    have "\<forall>i. i < length (filter has_data_line ?ds)
          \<and> js_ge (line_of (filter has_data_line ?ds ! i)) (Fin (real (lineNumber ?doc 12)))
          \<and> (\<forall>j. j < i \<longrightarrow>
                \<not> js_ge (line_of (filter has_data_line ?ds ! j)) (Fin (real (lineNumber ?doc 12))))
        \<longrightarrow> handleEditorClick True ?doc 12 (Some ?ds) = Some (filter has_data_line ?ds ! i)"
      using editor_click_resolves_line [of ?doc 12 ?ds] by (elim conjE)
    then show ?thesis
      unfolding shown l3 by (elim allE [of _ 1]) (simp add: line_of_annotated)
  qed
  then have a: "handleEditorClick True ?doc 12 (Some ?ds) = Some (annotated 1 5)"
    unfolding shown by simp
  have "handleEditorClick True (replicate 9 nl) 9 (Some ?ds) = Some (filter has_data_line ?ds ! 2)"
  proof -
    let ?n = "Fin (real (lineNumber (replicate 9 nl) 9))"
    have "\<forall>i. (\<forall>e \<in> set (filter has_data_line ?ds). \<not> js_ge (line_of e) ?n)
          \<and> i < length (filter has_data_line ?ds)
          \<and> js_le (line_of (filter has_data_line ?ds ! i)) ?n
          \<and> (\<forall>j. i < j \<and> j < length (filter has_data_line ?ds) \<longrightarrow>
                \<not> js_le (line_of (filter has_data_line ?ds ! j)) ?n)
        \<longrightarrow> handleEditorClick True (replicate 9 nl) 9 (Some ?ds)
              = Some (filter has_data_line ?ds ! i)"
      using editor_click_resolves_line [of "replicate 9 nl" 9 ?ds] by (elim conjE)
    then show ?thesis
      unfolding shown l10 by (elim allE [of _ 2]) (simp add: line_of_annotated js_le_def)
  qed
  then have b: "handleEditorClick True (replicate 9 nl) 9 (Some ?ds) = Some (annotated 2 9)"
    unfolding shown by simp
  have c: "handleEditorClick True [] 0 (Some [plain 10]) = None"
    using editor_click_resolves_line [of "[]" 0 "[plain 10]"]
    by (elim conjE) (simp add: not_has_data_line_plain)
  from a b c show ?thesis by simp
qed

subsection \<open>C8: a click in the preview\<close>

text \<open>
  C8: on a click in the preview while sync mode is active, when the nearest element of
  the clicked element's ancestor chain (itself first) that carries a line annotation is
  annotated with \<open>line\<close>, the editor pane is scrolled to
  \<open>(line - 1) * lineHeight - 100\<close>, where \<open>lineHeight\<close> is looked up from the font size:
  Small 20, Medium 24, Large 28, Extra Large 32.
\<close>

theorem preview_click_scrolls_to_estimate:
  assumes "List.find has_data_line chain = Some target"
    and "line_of target = Fin (real_of_int line)"
  shows "handlePreviewClick True chain True True fontSize =
           Some (Fin (real_of_int ((line - 1) * int (lineHeightMap fontSize) - 100)))
     \<and> lineHeightMap Small = 20 \<and> lineHeightMap Medium = 24
     \<and> lineHeightMap Large = 28 \<and> lineHeightMap ExtraLarge = 32"
  using assms by (simp add: handlePreviewClick_def Let_def)

text \<open>C8, a click that satisfies the hypotheses: an unannotated element inside the
  element annotated 5, at font size Medium, scrolls to \<open>4 * 24 - 100 = -4\<close>.\<close>

theorem preview_click_scrolls_to_estimate_witness:
  "List.find has_data_line [plain 7, annotated 1 5] = Some (annotated 1 5)
   \<and> line_of (annotated 1 5) = Fin (real_of_int 5)
   \<and> handlePreviewClick True [plain 7, annotated 1 5] True True Medium = Some (Fin (- 4))"
proof -
  have f: "List.find has_data_line [plain 7, annotated 1 5] = Some (annotated 1 5)"
    by (simp add: has_data_line_annotated not_has_data_line_plain)
  have l: "line_of (annotated 1 5) = Fin (real_of_int 5)"
    by (simp add: line_of_annotated)
  show ?thesis
    using preview_click_scrolls_to_estimate [OF f l, of Medium] f l by simp
qed

section \<open>Properties of the preset handlers\<close>


text \<open>What \<^verbatim>\<open>handleSavePreset\<close> of \<^verbatim>\<open>part_002\<close> does in general: a blank selection is
  rejected with the alert and the collection unchanged, any other selection appends one
  preset holding the selected text, and a collection with a preset in it is read back
  from the persistence layer as it was stored.\<close>

lemma trim_Nil_iff: "trim s = [] \<longleftrightarrow> (\<forall>c \<in> set s. is_ws c)"
proof -
  have "(\<forall>x \<in> set (dropWhile is_ws s). is_ws x) \<longleftrightarrow> dropWhile is_ws s = []"
    using hd_dropWhile [of is_ws s]
    by (cases "dropWhile is_ws s") (auto dest: set_dropWhileD)
  then show ?thesis
    by (auto simp add: trim_def dropWhile_eq_Nil_conv dest: set_dropWhileD)
qed

lemma handleSavePreset_rejects_blank:
  "\<forall>c \<in> set (substring doc_content start end). is_ws c \<Longrightarrow>
   handleSavePreset (Some (start, end)) doc_content now name presets = (presets, True)"
  by (simp add: handleSavePreset_def trim_Nil_iff Let_def)

lemma handleSavePreset_appends:
  "\<exists>c \<in> set (substring doc_content start end). \<not> is_ws c \<Longrightarrow>
   handleSavePreset (Some (start, end)) doc_content now name presets =
     (presets @ [\<lparr>p_id = toString now, p_name = name,
                  p_content = substring doc_content start end\<rparr>], False)"
  by (auto simp add: handleSavePreset_def trim_Nil_iff Let_def)

lemma presets_survive_reload:
  "load_presets defaults (persist_presets (presets @ [p])) = presets @ [p]"
  by (simp add: load_presets_def persist_presets_def)

text \<open>The id is the decimal string of the clock reading.  Different readings give different
  strings, so the new id is fresh exactly when no existing preset carries the string of
  the current reading; two presets saved at the same reading share their id.\<close>

lemma toString_inj: "toString m = toString n \<longleftrightarrow> m = n"
  by (metis digits_value_toString)

lemma handleSavePreset_fresh_id:
  assumes "\<exists>c \<in> set (substring doc_content start end). \<not> is_ws c"
    and "toString now \<notin> p_id ` set presets"
    and "distinct (map p_id presets)"
  shows "distinct (map p_id (fst (handleSavePreset (Some (start, end)) doc_content now name presets)))"
  using assms by (simp add: handleSavePreset_appends)

lemma handleSavePreset_same_reading:
  "map p_id (fst (handleSavePreset (Some (0, 1)) ''x'' now ''second''
      (fst (handleSavePreset (Some (0, 1)) ''x'' now ''first'' [])))) = [toString now, toString now]"
  by (simp add: handleSavePreset_def substring_def trim_def is_ws_def Let_def)

section \<open>Properties of the Markdown insertion\<close>

lemma substring_prefix: "substring s 0 a = take a s"
  by (simp add: substring_def min_def)

lemma substring_mid: "a \<le> b \<Longrightarrow> b \<le> length s \<Longrightarrow> substring s a b = take (b - a) (drop a s)"
  by (simp add: substring_def min_def max_def)

lemma substring_from_drop: "substring_from s a = drop a s"
  by (auto simp add: substring_from_def substring_def Let_def min_def max_def)

lemma cursorOffset_le: "snd (insertion ty sel) \<le> length (fst (insertion ty sel))"
  by (cases ty) (simp_all add: or_else_def table_text_def)

text \<open>
  C10: for every insert type and every text with selection bounds
  \<open>0 \<le> selectionStart \<le> selectionEnd \<le> length\<close>, \<^verbatim>\<open>insertMarkdown\<close> returns the text
  before the selection, then the insertion for the selected text, then the text after
  the selection, and a cursor position between 0 and the length of the returned text.
\<close>

theorem insertMarkdown_frame:
  assumes "selectionStart \<le> selectionEnd" and "selectionEnd \<le> length txt"
  shows "new_text (insertMarkdown txt ty selectionStart selectionEnd) =
           take selectionStart txt
           @ fst (insertion ty (take (selectionEnd - selectionStart) (drop selectionStart txt)))
           @ drop selectionEnd txt
     \<and> 0 \<le> int (newCursor (insertMarkdown txt ty selectionStart selectionEnd))
     \<and> newCursor (insertMarkdown txt ty selectionStart selectionEnd)
         \<le> length (new_text (insertMarkdown txt ty selectionStart selectionEnd))"
proof -
  let ?sel = "take (selectionEnd - selectionStart) (drop selectionStart txt)"
  let ?r = "insertMarkdown txt ty selectionStart selectionEnd"
  have t: "new_text ?r = take selectionStart txt @ fst (insertion ty ?sel) @ drop selectionEnd txt"
    using assms
    by (simp add: insertMarkdown_def substring_prefix substring_mid substring_from_drop
          split_beta Let_def)
  have c: "newCursor ?r = selectionStart + snd (insertion ty ?sel)"
    using assms
    by (simp add: insertMarkdown_def substring_mid split_beta Let_def)
  have "length (take selectionStart txt) = selectionStart"
    using assms by simp
  then have "length (new_text ?r) =
      selectionStart + length (fst (insertion ty ?sel)) + length (drop selectionEnd txt)"
    unfolding t by simp
  moreover have "snd (insertion ty ?sel) \<le> length (fst (insertion ty ?sel))"
    by (rule cursorOffset_le)
  ultimately have "newCursor ?r \<le> length (new_text ?r)"
    unfolding c by linarith
  with t show ?thesis by simp
qed

text \<open>C10, a call that satisfies the hypotheses: bold on the selection \<open>world\<close> of
  \<open>hello world\<close>.\<close>

theorem insertMarkdown_frame_witness:
  "(6::nat) \<le> 11 \<and> 11 \<le> length ''hello world''
   \<and> new_text (insertMarkdown ''hello world'' Bold 6 11) = ''hello **world**''
   \<and> newCursor (insertMarkdown ''hello world'' Bold 6 11) = 15"
  using insertMarkdown_frame [of 6 11 "''hello world''" Bold]
  by (simp add: insertMarkdown_def substring_def substring_from_def or_else_def)

end
